theory Spec2Isabelle
  imports Complex_Main
begin

section \<open>Ray pools and ray sampling of \<^verbatim>\<open>utils/dataload.py\<close>\<close>

text \<open>
  The development embeds the three parts of \<^verbatim>\<open>utils/dataload.py\<close>: \<^verbatim>\<open>load_data\<close>,
  \<^verbatim>\<open>rays_dataset\<close> and the class \<^verbatim>\<open>RayGenerator\<close> with its method \<^verbatim>\<open>select\<close>.

  Conventions of the embedding:
  \<^item> Floating-point numbers are idealised as \<^typ>\<open>real\<close>; no rounding is modelled.
    A division by zero gives \<open>0\<close> here, where numpy and torch give an infinity or a NaN
    and raise nothing. It can occur in the focal length, when \<open>tan (fov / 2) = 0\<close>, and
    in the ray basis, when \<open>f = 0\<close>; no shape and no exception depends on it.
  \<^item> Tensors and arrays are nested lists in row-major order. Every shape check that
    numpy, OpenCV or torch makes on the path of the code is a branch returning an error.
  \<^item> Exceptions are values of the type \<open>error\<close>; a computation that may raise returns
    \<open>error + 'a\<close>, with \<open>Inl\<close> for the exception.
  \<^item> The size of a tensor is limited where a caller chooses it, in the batch of
    \<^verbatim>\<open>select\<close>: by the signed 64-bit integers of torch and by the memory of the process.
    Construction is taken to have the memory for the images and pools of its dataset.
  \<^item> The directory listing, the natural sort of the file names and the parsing of the
    JSON files are outside the embedding: a dataset is given as the sorted lists of
    files of each split (each file as \<^verbatim>\<open>cv2.imread\<close> decodes it) and the three parsed
    transform descriptions.
\<close>

subsection \<open>Errors\<close>

datatype error =
    KeyError
  | IndexError
  | UnboundLocalError
  | ValueError
  | RuntimeError
  | TypeError
  | CvError

definition and_then :: "error + 'a \<Rightarrow> ('a \<Rightarrow> error + 'b) \<Rightarrow> error + 'b" where
  "and_then m f = (case m of Inl e \<Rightarrow> Inl e | Inr x \<Rightarrow> f x)"

text \<open>A \<^verbatim>\<open>for i in range(n)\<close> loop that appends one element per round and stops at the
  first exception.\<close>

fun collect :: "('i \<Rightarrow> error + 'a) \<Rightarrow> 'i list \<Rightarrow> error + 'a list" where
  "collect f [] = Inr []"
| "collect f (i # rest) =
     (case f i of
        Inl e \<Rightarrow> Inl e
      | Inr x \<Rightarrow> (case collect f rest of Inl e \<Rightarrow> Inl e | Inr xs \<Rightarrow> Inr (x # xs)))"

text \<open>Python's \<^verbatim>\<open>xs[i]\<close> for an index that is not negative.\<close>

definition nth_err :: "'a list \<Rightarrow> nat \<Rightarrow> error + 'a" where
  "nth_err xs i = (if i < length xs then Inr (xs ! i) else Inl IndexError)"

subsection \<open>Data model\<close>

type_synonym matrix = "real list list"
type_synonym tensor3 = "real list list list"

text \<open>An image array of shape \<open>H \<times> W \<times> 3\<close>: its first two dimensions and its pixels in
  row-major order, three channels each.\<close>

record 'c ndarray =
  shape :: "nat \<times> nat"
  pixels :: "('c \<times> 'c \<times> 'c) list"

text \<open>What \<^verbatim>\<open>cv2.imread\<close> returns for a file: \<open>None\<close> when the file cannot be decoded.\<close>

type_synonym image_file = "nat ndarray option"

record frame =
  transform_matrix :: "real list list"
  file_path :: string

record transforms =
  camera_angle_x :: real
  frames :: "frame list"

record dataset =
  train_img_paths :: "image_file list"
  val_img_paths :: "image_file list"
  test_img_paths :: "image_file list"
  test_depth_paths :: "image_file list"
  test_normal_paths :: "image_file list"
  train_transform :: transforms
  test_transform :: transforms
  val_transform :: transforms

text \<open>One entry of a split. The entries of the train and val splits have no
  \<^verbatim>\<open>img_depth\<close> and \<^verbatim>\<open>img_normal\<close> keys.\<close>

record sample =
  img :: "real ndarray"
  img_depth :: "real ndarray option"
  img_normal :: "real ndarray option"
  transform :: matrix
  metadata :: frame

type_synonym cam_params = "nat \<times> nat \<times> real"

subsection \<open>Library operations on the path of the code\<close>

text \<open>\<^verbatim>\<open>cv2.cvtColor(src, cv2.COLOR_BGR2RGB)\<close>: fails on \<open>None\<close> and on an empty array,
  swaps the first and third channel otherwise.\<close>

definition cvtColor :: "image_file \<Rightarrow> error + nat ndarray" where
  "cvtColor src =
     (case src of
        None \<Rightarrow> Inl CvError
      | Some a \<Rightarrow>
          if fst (shape a) * snd (shape a) = 0 then Inl CvError
          else Inr \<lparr>shape = shape a, pixels = map (\<lambda>(b, g, r). (r, g, b)) (pixels a)\<rparr>)"

text \<open>\<^verbatim>\<open>a / 255.0\<close> on an array of bytes.\<close>

definition div255 :: "nat ndarray \<Rightarrow> real ndarray" where
  "div255 a =
     \<lparr>shape = shape a,
      pixels = map (\<lambda>(r, g, b). (real r / 255, real g / 255, real b / 255)) (pixels a)\<rparr>"

definition read_image :: "image_file \<Rightarrow> error + real ndarray" where
  "read_image fl = and_then (cvtColor fl) (\<lambda>a. Inr (div255 a))"

definition ncols :: "'a list list \<Rightarrow> nat" where
  "ncols m = (case m of [] \<Rightarrow> 0 | r # _ \<Rightarrow> length r)"

text \<open>\<^verbatim>\<open>torch.from_numpy(np.array(m)).float()\<close>: a ragged nested list is no array of
  numbers.\<close>

definition from_numpy :: "real list list \<Rightarrow> error + matrix" where
  "from_numpy m = (if list_all (\<lambda>r. length r = ncols m) m then Inr m else Inl ValueError)"

text \<open>\<^verbatim>\<open>torch.stack\<close>: the list must not be empty, and all tensors have the shape of the
  first one.\<close>

definition stack :: "matrix list \<Rightarrow> error + tensor3" where
  "stack ms =
     (case ms of
        [] \<Rightarrow> Inl RuntimeError
      | m0 # _ \<Rightarrow>
          if list_all (\<lambda>m. length m = length m0 \<and> list_all (\<lambda>r. length r = ncols m0) m) ms
          then Inr ms else Inl RuntimeError)"

text \<open>\<^verbatim>\<open>t[:, :3, :3]\<close> and \<^verbatim>\<open>t[:, :3, 3:]\<close>. A stack of tensors with one dimension has two
  dimensions, and three indices are too many for it.\<close>

definition rot_part :: "tensor3 \<Rightarrow> error + tensor3" where
  "rot_part t =
     (if list_ex (\<lambda>m. m = []) t then Inl IndexError
      else Inr (map (\<lambda>m. map (take 3) (take 3 m)) t))"

definition trans_part :: "tensor3 \<Rightarrow> error + tensor3" where
  "trans_part t =
     (if list_ex (\<lambda>m. m = []) t then Inl IndexError
      else Inr (map (\<lambda>m. map (drop 3) (take 3 m)) t))"

text \<open>\<^verbatim>\<open>torch.matmul\<close> of a batch of matrices with one matrix: the inner dimensions must
  agree.\<close>

definition matmul :: "tensor3 \<Rightarrow> matrix \<Rightarrow> error + tensor3" where
  "matmul t b =
     (if list_all (\<lambda>m. list_all (\<lambda>r. length r = length b) m) t
      then Inr (map (\<lambda>m. map (\<lambda>r. map (\<lambda>q. \<Sum>j\<leftarrow>[0..<length b]. r ! j * b ! j ! q)
                                        [0..<ncols b]) m) t)
      else Inl RuntimeError)"

text \<open>\<^verbatim>\<open>Tensor.expand\<close>: a dimension keeps its size, or has size one and is repeated.\<close>

definition expand_dim :: "nat \<Rightarrow> 'a list \<Rightarrow> error + 'a list" where
  "expand_dim n xs =
     (if length xs = n then Inr xs
      else if length xs = 1 then Inr (replicate n (hd xs))
      else Inl RuntimeError)"

definition expand :: "tensor3 \<Rightarrow> nat \<Rightarrow> nat \<Rightarrow> nat \<Rightarrow> error + tensor3" where
  "expand t n0 n1 n2 =
     and_then (collect (\<lambda>m. and_then (collect (expand_dim n2) m) (expand_dim n1)) t)
       (expand_dim n0)"

text \<open>\<^verbatim>\<open>torch.cat((a, b), dim=1)\<close>: the other two dimensions must agree.\<close>

definition cat1 :: "tensor3 \<Rightarrow> tensor3 \<Rightarrow> error + tensor3" where
  "cat1 a b =
     (if length a = length b \<and> list_all2 (\<lambda>x y. ncols x = ncols y) a b
      then Inr (map2 (@) a b) else Inl RuntimeError)"

text \<open>\<^verbatim>\<open>t.permute(1, 0, 2)\<close>.\<close>

definition permute102 :: "tensor3 \<Rightarrow> tensor3" where
  "permute102 t = map (\<lambda>r. map (\<lambda>m. m ! r) t) [0..<ncols t]"

text \<open>\<^verbatim>\<open>t.reshape(6, -1)\<close>: the elements in row-major order, cut into six rows.\<close>

definition reshape6 :: "tensor3 \<Rightarrow> error + matrix" where
  "reshape6 t =
     (let flat = concat (map concat t); n = length flat div 6
      in if length flat mod 6 = 0
         then Inr (map (\<lambda>i. take n (drop (i * n) flat)) [0..<6])
         else Inl RuntimeError)"

text \<open>\<^verbatim>\<open>m.transpose(1, 0)\<close> on a matrix.\<close>

definition transpose10 :: "matrix \<Rightarrow> matrix" where
  "transpose10 m = map (\<lambda>k. map (\<lambda>r. r ! k) m) [0..<ncols m]"

subsection \<open>The state of torch: generator and allocator\<close>

text \<open>
  The generator of torch is process-wide state. It is modelled as the infinite sequence
  of raw outputs it will produce and the number of outputs consumed so far. The third
  component is the number of bytes that the allocator of the process can give to one
  call; a call does not change it.
\<close>

record torch_state =
  raw :: "nat \<Rightarrow> nat"
  consumed :: nat
  memory :: nat

text \<open>
  The allocation of a tensor of \<open>bytes\<close> bytes, while the call holds \<open>held\<close> bytes
  already: the size must be below \<open>2\<^sup>6\<^sup>3\<close>, the limit of the signed 64-bit size
  computation, and the memory must suffice.
\<close>

definition fits :: "torch_state \<Rightarrow> nat \<Rightarrow> nat \<Rightarrow> bool" where
  "fits g held bytes \<longleftrightarrow> bytes < 2 ^ 63 \<and> held + bytes \<le> memory g"

text \<open>
  \<^verbatim>\<open>torch.randint(low, high, (N,))\<close>. The size is unpacked as a signed 64-bit integer,
  which raises \<^verbatim>\<open>TypeError\<close> outside that range. Then the result of \<open>N\<close> integers of
  eight bytes is allocated, which fails for a negative size and for a size that does
  not fit. Then \<open>low < high\<close> is required, and each raw output \<open>v\<close> of the generator is
  mapped to \<open>low + v mod (high - low)\<close>.
\<close>

definition randint ::
  "nat \<Rightarrow> nat \<Rightarrow> int \<Rightarrow> torch_state \<Rightarrow> (error + nat list) \<times> torch_state" where
  "randint low high N g =
     (if N < - (2 ^ 63) \<or> 2 ^ 63 \<le> N then (Inl TypeError, g)
      else if N < 0 then (Inl RuntimeError, g)
      else if fits g 0 (8 * nat N) then
        (if high \<le> low then (Inl RuntimeError, g)
         else (Inr (map (\<lambda>i. low + raw g (consumed g + i) mod (high - low)) [0..<nat N]),
               g\<lparr>consumed := consumed g + nat N\<rparr>))
      else (Inl RuntimeError, g))"

text \<open>
  \<^verbatim>\<open>m[:, ids]\<close> on a matrix of 4-byte floats (the poses are converted with
  \<^verbatim>\<open>.float()\<close>, and \<^verbatim>\<open>matmul\<close> and \<^verbatim>\<open>cat\<close> keep the type). The result is a new tensor
  of one entry per row and id, allocated while the ids, eight bytes each, are held.
\<close>

definition index_cols :: "matrix \<Rightarrow> nat list \<Rightarrow> torch_state \<Rightarrow> error + matrix" where
  "index_cols m ids g =
     (if fits g (8 * length ids) (4 * (length m * length ids))
      then Inr (map (\<lambda>r. map (\<lambda>i. r ! i) ids) m)
      else Inl RuntimeError)"

subsection \<open>\<^verbatim>\<open>load_data\<close>\<close>

text \<open>The body of the loops over the train and the val split.\<close>

definition load_sample :: "image_file list \<Rightarrow> transforms \<Rightarrow> nat \<Rightarrow> error + sample" where
  "load_sample paths tr i =
     and_then (nth_err paths i) (\<lambda>fl.
     and_then (read_image fl) (\<lambda>im.
     and_then (nth_err (frames tr) i) (\<lambda>md.
     and_then (from_numpy (transform_matrix md)) (\<lambda>tm.
     Inr \<lparr>img = im, img_depth = None, img_normal = None, transform = tm, metadata = md\<rparr>))))"

text \<open>The body of the loop over the test split.\<close>

definition load_test_sample :: "dataset \<Rightarrow> nat \<Rightarrow> error + sample" where
  "load_test_sample path i =
     and_then (nth_err (test_img_paths path) i) (\<lambda>fl.
     and_then (read_image fl) (\<lambda>im.
     and_then (nth_err (test_depth_paths path) i) (\<lambda>fd.
     and_then (read_image fd) (\<lambda>imd.
     and_then (nth_err (test_normal_paths path) i) (\<lambda>fn.
     and_then (read_image fn) (\<lambda>imn.
     and_then (nth_err (frames (test_transform path)) i) (\<lambda>md.
     and_then (from_numpy (transform_matrix md)) (\<lambda>tm.
     Inr \<lparr>img = im, img_depth = Some imd, img_normal = Some imn, transform = tm,
          metadata = md\<rparr>))))))))"

text \<open>The variable \<^verbatim>\<open>img\<close> read after the loops is the one the test loop assigned last; it
  is unbound when the test loop made no round.\<close>

definition last_img :: "sample list \<Rightarrow> error + real ndarray" where
  "last_img test_samples =
     (if test_samples = [] then Inl UnboundLocalError else Inr (img (last test_samples)))"

definition load_data :: "dataset \<Rightarrow> error + ((string \<rightharpoonup> sample list) \<times> cam_params)" where
  "load_data path =
     (let num_train = length (train_img_paths path);
          num_val = length (val_img_paths path);
          num_test = length (test_img_paths path)
      in
      and_then (collect (load_sample (train_img_paths path) (train_transform path))
                  [0..<num_train]) (\<lambda>train_samples.
      and_then (collect (load_sample (val_img_paths path) (val_transform path))
                  [0..<num_val]) (\<lambda>val_samples.
      and_then (collect (load_test_sample path) [0..<num_test]) (\<lambda>test_samples.
      let fov = camera_angle_x (train_transform path) in
      and_then (last_img test_samples) (\<lambda>im.
      let H = fst (shape im); W = snd (shape im);
          f = real W / (2 * tan (fov / 2));
          cam = (H, W, f);
          samples = [''train'' \<mapsto> train_samples, ''test'' \<mapsto> test_samples,
                     ''val'' \<mapsto> val_samples]
      in Inr (samples, cam))))))"

subsection \<open>\<^verbatim>\<open>rays_dataset\<close>\<close>

text \<open>
  Modelled from the spec: \<^verbatim>\<open>rays_single_cam\<close> of \<^verbatim>\<open>utils/xyz.py\<close>, which is not among the
  sources. Section 4.1 of the specification: a \<open>3 \<times> (H\<cdot>W)\<close> array whose column \<open>p\<close>, for
  the pixel in row \<open>i = p div W\<close> and column \<open>j = p mod W\<close>, is
  \<open>((j - W/2) / f, -(i - H/2) / f, -1)\<close>.
\<close>

definition rays_single_cam :: "cam_params \<Rightarrow> matrix" where
  "rays_single_cam cam =
     (case cam of (H, W, f) \<Rightarrow>
        [map (\<lambda>p. (real (p mod W) - real W / 2) / f) [0..<H * W],
         map (\<lambda>p. - (real (p div W) - real H / 2) / f) [0..<H * W],
         map (\<lambda>p. - 1) [0..<H * W]])"

definition keys :: "string list" where
  "keys = [''train'', ''test'', ''val'']"

text \<open>One round of the loop over the keys, for the samples of one split.\<close>

definition rays_split :: "sample list \<Rightarrow> cam_params \<Rightarrow> matrix \<Rightarrow> error + matrix" where
  "rays_split ss cam rays_1_cam =
     (case cam of (H, W, f) \<Rightarrow>
        let num_images = length ss in
        and_then (stack (map transform ss)) (\<lambda>transf_mats.
        and_then (rot_part transf_mats) (\<lambda>rot.
        and_then (matmul rot rays_1_cam) (\<lambda>rays_ds.
        and_then (trans_part transf_mats) (\<lambda>cam_origins.
        and_then (expand cam_origins num_images 3 (H * W)) (\<lambda>cam_origins.
        and_then (cat1 cam_origins rays_ds) (\<lambda>both.
        reshape6 (permute102 both))))))))"

fun rays_loop ::
  "string list \<Rightarrow> (string \<rightharpoonup> sample list) \<Rightarrow> cam_params \<Rightarrow> matrix \<Rightarrow> (string \<rightharpoonup> matrix)
     \<Rightarrow> error + (string \<rightharpoonup> matrix)" where
  "rays_loop [] samples cam rays_1_cam rays = Inr rays"
| "rays_loop (k # ks) samples cam rays_1_cam rays =
     (case samples k of
        None \<Rightarrow> Inl KeyError
      | Some ss \<Rightarrow>
          and_then (rays_split ss cam rays_1_cam) (\<lambda>r.
          rays_loop ks samples cam rays_1_cam (rays(k \<mapsto> r))))"

definition rays_dataset ::
  "(string \<rightharpoonup> sample list) \<Rightarrow> cam_params \<Rightarrow> error + (string \<rightharpoonup> matrix)" where
  "rays_dataset samples cam = rays_loop keys samples cam (rays_single_cam cam) Map.empty"

subsection \<open>\<^verbatim>\<open>RayGenerator\<close>\<close>

record RayGenerator =
  self_samples :: "string \<rightharpoonup> sample list"
  self_cam_params :: cam_params
  self_H :: nat
  self_W :: nat
  self_f :: real
  self_rays_dataset :: "string \<rightharpoonup> matrix"

definition RayGenerator_init :: "dataset \<Rightarrow> bool \<Rightarrow> error + RayGenerator" where
  "RayGenerator_init path on_gpu =
     and_then (load_data path) (\<lambda>(samples, cam).
     and_then (rays_dataset samples cam) (\<lambda>rays.
     Inr \<lparr>self_samples = samples, self_cam_params = cam,
          self_H = fst cam, self_W = fst (snd cam), self_f = snd (snd cam),
          self_rays_dataset = rays\<rparr>))"

text \<open>\<^verbatim>\<open>select\<close> returns its outcome together with the object and the state of torch
  as the call leaves them.\<close>

definition select ::
  "RayGenerator \<Rightarrow> string \<Rightarrow> int \<Rightarrow> torch_state
     \<Rightarrow> (error + (matrix \<times> nat list)) \<times> RayGenerator \<times> torch_state" where
  "select self mode N g =
     (case self_rays_dataset self mode of
        None \<Rightarrow> (Inl KeyError, self, g)
      | Some data \<Rightarrow>
          (case self_samples self mode of
             None \<Rightarrow> (Inl KeyError, self, g)
           | Some samples \<Rightarrow>
               (case randint 0 (ncols data) N g of
                  (Inl e, g') \<Rightarrow> (Inl e, self, g')
                | (Inr ray_ids, g') \<Rightarrow>
                    (case index_cols data ray_ids g' of
                       Inl e \<Rightarrow> (Inl e, self, g')
                     | Inr cols \<Rightarrow> (Inr (transpose10 cols, ray_ids), self, g')))))"

subsection \<open>Notions the claims are stated with\<close>

text \<open>Column \<open>c\<close> of a matrix; the translation (the first three entries of the fourth
  column) and the rotation (the upper left \<open>3 \<times> 3\<close> block) of a pose; the product of a
  matrix with a vector. A batch of \<open>N\<close> rays fits the process when the \<open>8\<cdot>N\<close> bytes of its
  ids and the \<open>24\<cdot>N\<close> bytes of its rays, six floats of four bytes each, are within the
  memory of the process and the size of the rays is below \<open>2\<^sup>6\<^sup>3\<close>. A pose has at least
  three rows of four entries each, as the \<open>4 \<times> 4\<close> and \<open>3 \<times> 4\<close> transform matrices have.\<close>

definition column :: "matrix \<Rightarrow> nat \<Rightarrow> real list" where
  "column m c = map (\<lambda>row. row ! c) m"

definition translation :: "matrix \<Rightarrow> real list" where
  "translation m = map (\<lambda>i. m ! i ! 3) [0..<3]"

definition rotation :: "matrix \<Rightarrow> matrix" where
  "rotation m = map (take 3) (take 3 m)"

definition mat_vec :: "matrix \<Rightarrow> real list \<Rightarrow> real list" where
  "mat_vec a v = map (\<lambda>row. \<Sum>j\<leftarrow>[0..<length v]. row ! j * v ! j) a"

definition batch_fits :: "torch_state \<Rightarrow> int \<Rightarrow> bool" where
  "batch_fits g N \<longleftrightarrow> 24 * N < 2 ^ 63 \<and> 32 * N \<le> int (memory g)"

definition pose_shaped :: "matrix \<Rightarrow> bool" where
  "pose_shaped m \<longleftrightarrow> 3 \<le> length m \<and> (\<forall>row\<in>set m. length row = 4)"

text \<open>The dataset with the pose list of every split cut to the number of images of the
  split.\<close>

definition first_frames :: "nat \<Rightarrow> transforms \<Rightarrow> transforms" where
  "first_frames n tr = tr\<lparr>frames := take n (frames tr)\<rparr>"

definition drop_surplus :: "dataset \<Rightarrow> dataset" where
  "drop_surplus path =
     path\<lparr>train_transform := first_frames (length (train_img_paths path)) (train_transform path),
          val_transform := first_frames (length (val_img_paths path)) (val_transform path),
          test_transform := first_frames (length (test_img_paths path)) (test_transform path)\<rparr>"

text \<open>The shape of a tensor with three dimensions, and a pool of six rows of one positive
  width.\<close>

definition dims3 :: "'a list list list \<Rightarrow> nat \<Rightarrow> nat \<Rightarrow> nat \<Rightarrow> bool" where
  "dims3 t B R K \<longleftrightarrow>
     length t = B \<and> (\<forall>m\<in>set t. length m = R \<and> (\<forall>r\<in>set m. length r = K))"

definition pool_ok :: "matrix \<Rightarrow> bool" where
  "pool_ok data \<longleftrightarrow> length data = 6 \<and> 0 < ncols data \<and> (\<forall>row\<in>set data. length row = ncols data)"

subsection \<open>A small dataset\<close>

text \<open>Images of \<open>2 \<times> 2\<close> pixels and a field of view of \<open>\<pi>/2\<close>, so that \<open>f = 1\<close>: two
  train images, one val image and one test image. The three variants have a test split
  without images, one train image for two train poses, and a val split without poses.\<close>

definition example_image :: "nat ndarray" where
  "example_image = \<lparr>shape = (2, 2), pixels = [(0, 0, 255), (0, 255, 0), (255, 0, 0), (51, 102, 255)]\<rparr>"

definition example_pose :: "real list list" where
  "example_pose = [[0, - 1, 0, 5], [1, 0, 0, 6], [0, 0, 1, 7], [0, 0, 0, 1]]"

definition identity_pose :: "real list list" where
  "identity_pose = [[1, 0, 0, 0], [0, 1, 0, 0], [0, 0, 1, 0], [0, 0, 0, 1]]"

definition example_transforms :: "real list list list \<Rightarrow> transforms" where
  "example_transforms ms =
     \<lparr>camera_angle_x = pi / 2,
      frames = map (\<lambda>m. \<lparr>transform_matrix = m, file_path = ''r''\<rparr>) ms\<rparr>"

definition example_dataset :: dataset where
  "example_dataset =
     \<lparr>train_img_paths = [Some example_image, Some example_image],
      val_img_paths = [Some example_image],
      test_img_paths = [Some example_image],
      test_depth_paths = [Some example_image],
      test_normal_paths = [Some example_image],
      train_transform = example_transforms [identity_pose, example_pose],
      test_transform = example_transforms [identity_pose],
      val_transform = example_transforms [example_pose]\<rparr>"

definition example_rgb :: "real ndarray" where
  "example_rgb = \<lparr>shape = (2, 2), pixels = [(1, 0, 0), (0, 1, 0), (0, 0, 1), (1, 2 / 5, 1 / 5)]\<rparr>"

definition example_sample :: "real list list \<Rightarrow> sample" where
  "example_sample m = \<lparr>img = example_rgb, img_depth = None, img_normal = None, transform = m,
      metadata = \<lparr>transform_matrix = m, file_path = ''r''\<rparr>\<rparr>"

definition example_test_sample :: "real list list \<Rightarrow> sample" where
  "example_test_sample m = \<lparr>img = example_rgb, img_depth = Some example_rgb, img_normal = Some example_rgb, transform = m,
      metadata = \<lparr>transform_matrix = m, file_path = ''r''\<rparr>\<rparr>"

definition example_samples :: "string \<rightharpoonup> sample list" where
  "example_samples = [''train'' \<mapsto> [example_sample identity_pose, example_sample example_pose],
     ''test'' \<mapsto> [example_test_sample identity_pose], ''val'' \<mapsto> [example_sample example_pose]]"

definition example_basis :: matrix where
  "example_basis = [[- 1, 0, - 1, 0], [1, 1, 0, 0], [- 1, - 1, - 1, - 1]]"

definition train_pool :: matrix where
  "train_pool = [[0, 0, 0, 0, 5, 5, 5, 5], [0, 0, 0, 0, 6, 6, 6, 6], [0, 0, 0, 0, 7, 7, 7, 7],
     [- 1, 0, - 1, 0, - 1, - 1, 0, 0], [1, 1, 0, 0, - 1, 0, - 1, 0],
     [- 1, - 1, - 1, - 1, - 1, - 1, - 1, - 1]]"

definition test_pool :: matrix where
  "test_pool = [[0, 0, 0, 0], [0, 0, 0, 0], [0, 0, 0, 0], [- 1, 0, - 1, 0], [1, 1, 0, 0],
     [- 1, - 1, - 1, - 1]]"

definition val_pool :: matrix where
  "val_pool = [[5, 5, 5, 5], [6, 6, 6, 6], [7, 7, 7, 7], [- 1, - 1, 0, 0], [- 1, 0, - 1, 0],
     [- 1, - 1, - 1, - 1]]"

definition example_engine :: RayGenerator where
  "example_engine = \<lparr>self_samples = example_samples, self_cam_params = (2, 2, 1),
     self_H = 2, self_W = 2, self_f = 1,
     self_rays_dataset = [''train'' \<mapsto> train_pool, ''test'' \<mapsto> test_pool, ''val'' \<mapsto> val_pool]\<rparr>"

definition example_state :: torch_state where
  "example_state = \<lparr>raw = (\<lambda>i. 7 * i + 3), consumed = 0, memory = 4096\<rparr>"

definition no_test_dataset :: dataset where
  "no_test_dataset =
     example_dataset\<lparr>test_img_paths := [], test_depth_paths := [], test_normal_paths := []\<rparr>"

definition surplus_dataset :: dataset where
  "surplus_dataset = example_dataset\<lparr>train_img_paths := [Some example_image]\<rparr>"

definition surplus_samples :: "string \<rightharpoonup> sample list" where
  "surplus_samples = [''train'' \<mapsto> [example_sample identity_pose],
     ''test'' \<mapsto> [example_test_sample identity_pose], ''val'' \<mapsto> [example_sample example_pose]]"

definition surplus_engine :: RayGenerator where
  "surplus_engine = \<lparr>self_samples = surplus_samples, self_cam_params = (2, 2, 1),
     self_H = 2, self_W = 2, self_f = 1,
     self_rays_dataset = [''train'' \<mapsto> test_pool, ''test'' \<mapsto> test_pool, ''val'' \<mapsto> val_pool]\<rparr>"

definition short_dataset :: dataset where
  "short_dataset = example_dataset\<lparr>val_transform := example_transforms []\<rparr>"

section \<open>Properties\<close>

subsection \<open>Errors and loops\<close>

lemma and_then_Inr: "and_then m f = Inr y \<longleftrightarrow> (\<exists>x. m = Inr x \<and> f x = Inr y)"
  by (cases m) (simp_all add: and_then_def)

lemma collect_Inr:
  "collect f xs = Inr ys \<Longrightarrow> length ys = length xs \<and> (\<forall>i<length xs. f (xs ! i) = Inr (ys ! i))"
proof (induction xs arbitrary: ys)
  case Nil
  then show ?case by simp
next
  case (Cons x xs)
  from Cons.prems obtain y ys' where fx: "f x = Inr y" and rest: "collect f xs = Inr ys'"
    and ys: "ys = y # ys'"
    by (auto split: sum.splits)
  from Cons.IH [OF rest] have len: "length ys' = length xs"
    and nth: "\<forall>i<length xs. f (xs ! i) = Inr (ys' ! i)" by simp_all
  show ?case
  proof (intro conjI allI impI)
    show "length ys = length (x # xs)" using len ys by simp
  next
    fix i assume "i < length (x # xs)"
    then show "f ((x # xs) ! i) = Inr (ys ! i)"
      using fx nth ys by (cases i) simp_all
  qed
qed

lemma collect_Inl:
  "i < length xs \<Longrightarrow> f (xs ! i) = Inl e \<Longrightarrow> \<exists>e'. collect f xs = Inl e'"
proof (induction xs arbitrary: i)
  case Nil
  then show ?case by simp
next
  case (Cons x xs)
  show ?case
  proof (cases i)
    case 0
    with Cons.prems show ?thesis by simp
  next
    case (Suc j)
    with Cons.prems Cons.IH [of j] obtain e' where "collect f xs = Inl e'" by auto
    then show ?thesis by (simp split: sum.splits)
  qed
qed

lemma collect_cong:
  "(\<And>x. x \<in> set xs \<Longrightarrow> f x = g x) \<Longrightarrow> collect f xs = collect g xs"
  by (induction xs) (simp_all split: sum.splits)

lemma collect_upt_Inl:
  assumes "i < n" and "f i = Inl e"
  shows "\<exists>e'. collect f [0..<n] = Inl e'"
proof -
  have "i < length [0..<n]" using assms(1) by simp
  moreover have "f ([0..<n] ! i) = Inl e" using assms by simp
  ultimately show ?thesis by (rule collect_Inl)
qed

lemma nth_err_take: "i < n \<Longrightarrow> nth_err (take n xs) i = nth_err xs i"
  by (simp add: nth_err_def)

subsection \<open>Lists of lists of one length\<close>

lemma length_concat_uniform:
  "(\<And>xs. xs \<in> set xss \<Longrightarrow> length xs = n) \<Longrightarrow> length (concat xss) = length xss * n"
  by (induction xss) simp_all

lemma concat_nth_uniform:
  "(\<And>xs. xs \<in> set xss \<Longrightarrow> length xs = n) \<Longrightarrow> b < length xss \<Longrightarrow> p < n
     \<Longrightarrow> concat xss ! (b * n + p) = xss ! b ! p"
proof (induction xss arbitrary: b)
  case Nil
  then show ?case by simp
next
  case (Cons xs xss)
  have lx: "length xs = n" using Cons.prems(1) by simp
  show ?case
  proof (cases b)
    case 0
    then show ?thesis using lx Cons.prems(3) by (simp add: nth_append)
  next
    case (Suc c)
    have "concat xss ! (c * n + p) = xss ! c ! p"
      using Cons.IH [of c] Cons.prems Suc by simp
    then show ?thesis using lx Suc by (simp add: nth_append)
  qed
qed

lemma take_drop_concat_uniform:
  "(\<And>xs. xs \<in> set xss \<Longrightarrow> length xs = n) \<Longrightarrow> i < length xss
     \<Longrightarrow> take n (drop (i * n) (concat xss)) = xss ! i"
proof (induction xss arbitrary: i)
  case Nil
  then show ?case by simp
next
  case (Cons xs xss)
  have lx: "length xs = n" using Cons.prems(1) by simp
  show ?case
  proof (cases i)
    case 0
    then show ?thesis using lx by simp
  next
    case (Suc j)
    have "take n (drop (j * n) (concat xss)) = xss ! j"
      using Cons.IH [of j] Cons.prems Suc by simp
    then show ?thesis using lx Suc by simp
  qed
qed

lemma dims3_flat_length:
  assumes "dims3 t A B K"
  shows "length (concat (map concat t)) = A * B * K"
proof -
  have inner: "\<And>xs. xs \<in> set (map concat t) \<Longrightarrow> length xs = B * K"
  proof -
    fix xs assume "xs \<in> set (map concat t)"
    then obtain m where m: "m \<in> set t" and xs: "xs = concat m" by auto
    have "length (concat m) = length m * K"
      using assms m by (intro length_concat_uniform) (simp add: dims3_def)
    then show "length xs = B * K" using assms m xs by (simp add: dims3_def)
  qed
  have "length (concat (map concat t)) = length (map concat t) * (B * K)"
    using inner by (rule length_concat_uniform)
  then show ?thesis using assms by (simp add: dims3_def)
qed

lemma dims3_map:
  assumes "length t = B"
    and "\<And>m. m \<in> set t \<Longrightarrow> length (g m) = R \<and> (\<forall>r\<in>set (g m). length r = K)"
  shows "dims3 (map g t) B R K"
  using assms by (auto simp: dims3_def)

lemma column_append:
  "column (xs @ ys) c = column xs c @ column ys c"
  by (simp add: column_def)

lemma column_nth:
  "column m c = map (\<lambda>r. m ! r ! c) [0..<length m]"
  unfolding column_def by (rule nth_equalityI) simp_all

lemma sum_list_upt_cong:
  "(\<And>j. j < n \<Longrightarrow> f j = g j) \<Longrightarrow> (\<Sum>j\<leftarrow>[0..<n]. f j) = (\<Sum>j\<leftarrow>[0..<n]. (g j :: real))"
  by (rule arg_cong [where f = sum_list], rule map_cong) simp_all

subsection \<open>Shapes through the tensor operations\<close>

lemma reshape6_shape:
  assumes "reshape6 t = Inr pool"
  shows "length pool = 6"
    and "\<forall>row\<in>set pool. length row = length (concat (map concat t)) div 6"
proof -
  let ?flat = "concat (map concat t)"
  let ?n = "length ?flat div 6"
  from assms have md: "length ?flat mod 6 = 0"
    and pool: "pool = map (\<lambda>i. take ?n (drop (i * ?n) ?flat)) [0..<6]"
    by (auto simp: reshape6_def Let_def split: if_splits)
  show "length pool = 6" using pool by simp
  have "6 * ?n + length ?flat mod 6 = length ?flat" by (rule mult_div_mod_eq)
  then have len: "length ?flat = 6 * ?n" using md by simp
  show "\<forall>row\<in>set pool. length row = ?n"
  proof
    fix row assume "row \<in> set pool"
    then obtain i where i: "i < 6" and row: "row = take ?n (drop (i * ?n) ?flat)"
      using pool by auto
    have "i * ?n + ?n \<le> 6 * ?n"
    proof -
      have "i * ?n + ?n = Suc i * ?n" by simp
      also have "\<dots> \<le> 6 * ?n" using i by (intro mult_le_mono1) simp
      finally show ?thesis .
    qed
    then show "length row = ?n" using row len by simp
  qed
qed

lemma reshape6_rows:
  assumes "dims3 t 6 B K"
  shows "reshape6 t = Inr (map concat t)"
proof -
  let ?flat = "concat (map concat t)"
  have flat: "length ?flat = 6 * B * K" using assms by (rule dims3_flat_length)
  have n: "length ?flat div 6 = B * K" using flat by simp
  have inner: "\<And>xs. xs \<in> set (map concat t) \<Longrightarrow> length xs = B * K"
  proof -
    fix xs assume "xs \<in> set (map concat t)"
    then obtain m where m: "m \<in> set t" and xs: "xs = concat m" by auto
    have "length (concat m) = length m * K"
      using assms m by (intro length_concat_uniform) (simp add: dims3_def)
    then show "length xs = B * K" using assms m xs by (simp add: dims3_def)
  qed
  have lt: "length t = 6" using assms by (simp add: dims3_def)
  have rows: "map (\<lambda>i. take (B * K) (drop (i * (B * K)) ?flat)) [0..<6] = map concat t"
  proof (rule nth_equalityI)
    show "length (map (\<lambda>i. take (B * K) (drop (i * (B * K)) ?flat)) [0..<6])
            = length (map concat t)"
      using lt by simp
  next
    fix i assume "i < length (map (\<lambda>i. take (B * K) (drop (i * (B * K)) ?flat)) [0..<6])"
    then have i: "i < 6" by simp
    have il: "i < length (map concat t)" using lt i by simp
    have "take (B * K) (drop (i * (B * K)) (concat (map concat t))) = map concat t ! i"
      using inner il by (rule take_drop_concat_uniform)
    then show "map (\<lambda>i. take (B * K) (drop (i * (B * K)) ?flat)) [0..<6] ! i
                 = map concat t ! i"
      using i by (simp del: upt_Suc)
  qed
  have "6 * B * K mod 6 = 0" by simp
  then show ?thesis
    unfolding reshape6_def Let_def n using flat rows by simp
qed

lemma stack_Inr:
  assumes "stack ms = Inr t"
  shows "t = ms" and "ms \<noteq> []" and "dims3 t (length ms) (length (hd ms)) (ncols (hd ms))"
proof -
  from assms obtain m0 rest where ms: "ms = m0 # rest" 
    by (cases ms) (simp_all add: stack_def)
  from assms ms have ok: "list_all (\<lambda>m. length m = length m0 \<and> list_all (\<lambda>r. length r = ncols m0) m) ms"
    and t: "t = ms"
    by (auto simp: stack_def split: if_splits)
  show "t = ms" by (rule t)
  show "ms \<noteq> []" using ms by simp
  show "dims3 t (length ms) (length (hd ms)) (ncols (hd ms))"
    using ok t ms unfolding dims3_def list_all_iff by simp
qed

lemma rot_part_Inr:
  assumes "rot_part t = Inr rot" and "dims3 t B r c"
  shows "rot = map (\<lambda>m. map (take 3) (take 3 m)) t"
    and "dims3 rot B (min r 3) (min c 3)"
    and "[] \<notin> set t"
proof -
  from assms(1) show rot: "rot = map (\<lambda>m. map (take 3) (take 3 m)) t"
    and ne: "[] \<notin> set t"
    by (auto simp: rot_part_def list_ex_iff split: if_splits)
  show "dims3 rot B (min r 3) (min c 3)"
    using assms(2) unfolding rot dims3_def by (auto dest: in_set_takeD)
qed

lemma matmul_Inr:
  assumes "matmul t b = Inr d" and "dims3 t B R k"
  shows "d = map (\<lambda>m. map (\<lambda>r. map (\<lambda>q. \<Sum>j\<leftarrow>[0..<length b]. r ! j * b ! j ! q)
                                    [0..<ncols b]) m) t"
    and "dims3 d B R (ncols b)"
proof -
  from assms(1) show d: "d = map (\<lambda>m. map (\<lambda>r. map (\<lambda>q. \<Sum>j\<leftarrow>[0..<length b]. r ! j * b ! j ! q)
                                    [0..<ncols b]) m) t"
    by (auto simp: matmul_def split: if_splits)
  show "dims3 d B R (ncols b)"
    using assms(2) unfolding d dims3_def by auto
qed

lemma expand_dim_Inr:
  assumes "expand_dim n xs = Inr ys"
  shows "length ys = n" and "set ys \<subseteq> set xs"
proof -
  from assms have cases: "ys = xs \<and> length xs = n \<or> ys = replicate n (hd xs) \<and> length xs = 1"
    by (auto simp: expand_dim_def split: if_splits)
  then show "length ys = n" by auto
  from cases show "set ys \<subseteq> set xs"
  proof
    assume "ys = xs \<and> length xs = n" then show ?thesis by simp
  next
    assume a: "ys = replicate n (hd xs) \<and> length xs = 1"
    then have "xs \<noteq> []" by auto
    then have "hd xs \<in> set xs" by simp
    then show ?thesis using a by (auto simp: set_replicate_conv_if)
  qed
qed

lemma expand_dim_one:
  assumes "expand_dim n xs = Inr ys" and "length xs = 1"
  shows "ys = replicate n (hd xs)"
proof (cases "n = 1")
  case True
  then have "ys = xs" using assms by (simp add: expand_dim_def)
  moreover obtain x where "xs = [x]" using assms(2) by (cases xs) auto
  ultimately show ?thesis using True by simp
next
  case False
  then show ?thesis using assms by (simp add: expand_dim_def)
qed

lemma expand_dim_same:
  assumes "expand_dim n xs = Inr ys" and "length xs = n"
  shows "ys = xs"
  using assms by (simp add: expand_dim_def)

lemma expand_Inr:
  assumes "expand t n0 n1 n2 = Inr t'"
  shows "dims3 t' n0 n1 n2"
proof -
  let ?f = "\<lambda>m. and_then (collect (expand_dim n2) m) (expand_dim n1)"
  from assms obtain t1 where c: "collect ?f t = Inr t1" and e0: "expand_dim n0 t1 = Inr t'"
    by (auto simp: expand_def and_then_Inr)
  have elem: "length m' = n1 \<and> (\<forall>r\<in>set m'. length r = n2)" if "m' \<in> set t1" for m'
  proof -
    from that obtain i where i: "i < length t1" and m': "m' = t1 ! i"
      by (auto simp: in_set_conv_nth)
    from collect_Inr [OF c] i have "?f (t ! i) = Inr (t1 ! i)" by simp
    then obtain rows where cr: "collect (expand_dim n2) (t ! i) = Inr rows"
      and e1: "expand_dim n1 rows = Inr m'"
      using m' by (auto simp: and_then_Inr)
    have rl: "\<forall>r\<in>set rows. length r = n2"
    proof
      fix r assume "r \<in> set rows"
      then obtain j where j: "j < length rows" and r: "r = rows ! j"
        by (auto simp: in_set_conv_nth)
      from collect_Inr [OF cr] j have "expand_dim n2 (t ! i ! j) = Inr (rows ! j)" by simp
      then show "length r = n2" using r by (simp add: expand_dim_Inr(1))
    qed
    from expand_dim_Inr [OF e1] rl show ?thesis by auto
  qed
  from expand_dim_Inr [OF e0] elem show ?thesis
    unfolding dims3_def by auto
qed

lemma expand_broadcast:
  assumes ex: "expand t n0 n1 n2 = Inr t'" and dt: "dims3 t n0 n1 1"
    and b: "b < n0" and i: "i < n1"
  shows "t' ! b ! i = replicate n2 (hd (t ! b ! i))"
proof -
  let ?f = "\<lambda>m. and_then (collect (expand_dim n2) m) (expand_dim n1)"
  from ex obtain t1 where c: "collect ?f t = Inr t1" and e0: "expand_dim n0 t1 = Inr t'"
    by (auto simp: expand_def and_then_Inr)
  have lt: "length t = n0" using dt by (simp add: dims3_def)
  have tb: "t ! b \<in> set t" using b lt by simp
  have lb: "length (t ! b) = n1" using dt tb by (simp add: dims3_def)
  have tbi: "t ! b ! i \<in> set (t ! b)" using i lb by simp
  have li: "length (t ! b ! i) = 1" using dt tb tbi by (simp add: dims3_def)
  from collect_Inr [OF c] have l1: "length t1 = n0"
    and n1: "\<forall>j<length t. ?f (t ! j) = Inr (t1 ! j)" using lt by simp_all
  have t': "t' = t1" using e0 l1 by (rule expand_dim_same)
  from n1 b lt have "?f (t ! b) = Inr (t1 ! b)" by simp
  then obtain rows where cr: "collect (expand_dim n2) (t ! b) = Inr rows"
    and e1: "expand_dim n1 rows = Inr (t1 ! b)"
    by (auto simp: and_then_Inr)
  from collect_Inr [OF cr] have lr: "length rows = n1"
    and nr: "\<forall>j<length (t ! b). expand_dim n2 (t ! b ! j) = Inr (rows ! j)"
    using lb by simp_all
  have rows: "t1 ! b = rows" using e1 lr by (rule expand_dim_same)
  from nr i lb have "expand_dim n2 (t ! b ! i) = Inr (rows ! i)" by simp
  then have "rows ! i = replicate n2 (hd (t ! b ! i))" using li by (rule expand_dim_one)
  then show ?thesis using t' rows by simp
qed

lemma cat1_Inr:
  assumes "cat1 a b = Inr c" and "dims3 a B R1 K" and "dims3 b B R2 K"
  shows "c = map2 (@) a b" and "dims3 c B (R1 + R2) K"
proof -
  from assms(1) show c: "c = map2 (@) a b"
    by (auto simp: cat1_def split: if_splits)
  have "length m = R1 + R2 \<and> (\<forall>r\<in>set m. length r = K)" if "m \<in> set (map2 (@) a b)" for m
  proof -
    from that obtain x y where "x \<in> set a" "y \<in> set b" "m = x @ y"
      by (auto dest: set_zip_leftD set_zip_rightD)
    then show ?thesis using assms(2,3) by (auto simp: dims3_def)
  qed
  then show "dims3 c B (R1 + R2) K"
    using assms(2,3) unfolding c dims3_def by simp
qed

lemma permute102_dims:
  assumes "dims3 t B R K" and "0 < B"
  shows "permute102 t = map (\<lambda>r. map (\<lambda>m. m ! r) t) [0..<R]"
    and "dims3 (permute102 t) R B K"
proof -
  from assms obtain m0 rest where t: "t = m0 # rest" by (cases t) (auto simp: dims3_def)
  then have "ncols t = R" using assms(1) by (simp add: ncols_def dims3_def)
  then show p: "permute102 t = map (\<lambda>r. map (\<lambda>m. m ! r) t) [0..<R]"
    by (simp add: permute102_def)
  show "dims3 (permute102 t) R B K"
    using assms(1) unfolding p dims3_def by auto
qed

lemma pose_blocks:
  assumes "3 \<le> length m" and "\<forall>row\<in>set m. length row = 4"
  shows "length (map (take 3) (take 3 m)) = 3 \<and>
         (\<forall>r\<in>set (map (take 3) (take 3 m)). length r = 3)"
    and "length (map (drop 3) (take 3 m)) = 3 \<and>
         (\<forall>r\<in>set (map (drop 3) (take 3 m)). length r = 1)"
proof -
  have rows: "length row = 4" if "row \<in> set (take 3 m)" for row
    using that assms(2) by (auto dest: in_set_takeD)
  show "length (map (take 3) (take 3 m)) = 3 \<and>
         (\<forall>r\<in>set (map (take 3) (take 3 m)). length r = 3)"
    using assms(1) rows by auto
  show "length (map (drop 3) (take 3 m)) = 3 \<and>
         (\<forall>r\<in>set (map (drop 3) (take 3 m)). length r = 1)"
    using assms(1) rows by auto
qed

subsection \<open>The pool of one split\<close>

lemma ncols_rays_single_cam: "ncols (rays_single_cam (H, W, f)) = H * W"
  by (simp add: rays_single_cam_def ncols_def)

lemma length_rays_single_cam: "length (rays_single_cam (H, W, f)) = 3"
  by (simp add: rays_single_cam_def)

lemma rows_rays_single_cam: "\<forall>row\<in>set (rays_single_cam (H, W, f)). length row = H * W"
  by (simp add: rays_single_cam_def)

lemma rays_split_both:
  assumes "rays_split ss (H, W, f) basis = Inr pool" and "ncols basis = H * W"
  obtains both R where "ss \<noteq> []" and "dims3 both (length ss) (3 + R) (H * W)"
    and "R = min (length (transform (hd ss))) 3"
    and "reshape6 (permute102 both) = Inr pool"
proof -
  from assms(1) obtain t rot d tr orig both where
    st: "stack (map transform ss) = Inr t" and
    ro: "rot_part t = Inr rot" and
    mm: "matmul rot basis = Inr d" and
    tp: "trans_part t = Inr tr" and
    ex: "expand tr (length ss) 3 (H * W) = Inr orig" and
    ct: "cat1 orig d = Inr both" and
    rs: "reshape6 (permute102 both) = Inr pool"
    by (auto simp: rays_split_def Let_def and_then_Inr)
  let ?r = "length (hd (map transform ss))"
  let ?c = "ncols (hd (map transform ss))"
  from stack_Inr [OF st] have ne: "ss \<noteq> []"
    and dt: "dims3 t (length ss) ?r ?c" by simp_all
  have dd: "dims3 d (length ss) (min ?r 3) (H * W)"
    using matmul_Inr(2) [OF mm rot_part_Inr(2) [OF ro dt]] assms(2) by simp
  have dorig: "dims3 orig (length ss) 3 (H * W)" using ex by (rule expand_Inr)
  have db: "dims3 both (length ss) (3 + min ?r 3) (H * W)"
    using cat1_Inr(2) [OF ct dorig dd] .
  have "hd (map transform ss) = transform (hd ss)" using ne by (simp add: hd_map)
  then show ?thesis using that [OF ne _ _ rs, of "min ?r 3"] db by simp
qed

lemma rays_split_pool_ok:
  assumes "rays_split ss (H, W, f) basis = Inr pool" and "ncols basis = H * W"
    and "0 < H * W"
  shows "pool_ok pool"
proof -
  from assms(1,2) obtain both R where ne: "ss \<noteq> []"
    and db: "dims3 both (length ss) (3 + R) (H * W)"
    and rs: "reshape6 (permute102 both) = Inr pool"
    by (rule rays_split_both)
  have B: "0 < length ss" using ne by simp
  have dp: "dims3 (permute102 both) (3 + R) (length ss) (H * W)"
    using db B by (rule permute102_dims(2))
  let ?flat = "concat (map concat (permute102 both))"
  have fl: "length ?flat = (3 + R) * length ss * (H * W)"
    using dp by (rule dims3_flat_length)
  have pos: "0 < length ?flat" using fl B assms(3) by simp
  have md: "length ?flat mod 6 = 0"
    using rs by (auto simp: reshape6_def Let_def split: if_splits)
  from md have "6 dvd length ?flat" by (simp add: mod_eq_0_iff_dvd)
  then obtain q where q: "length ?flat = 6 * q" ..
  have n: "0 < length ?flat div 6" using pos unfolding q by simp
  from reshape6_shape [OF rs] have l6: "length pool = 6"
    and rows: "\<forall>row\<in>set pool. length row = length ?flat div 6" by simp_all
  from l6 obtain r0 rest where pool: "pool = r0 # rest" by (cases pool) simp_all
  then have "ncols pool = length ?flat div 6" using rows by (simp add: ncols_def)
  then show ?thesis using l6 rows n by (simp add: pool_ok_def)
qed

lemma rays_split_layout:
  assumes sp: "rays_split ss (H, W, f) basis = Inr pool"
    and lbas: "length basis = 3" and rbas: "\<forall>row\<in>set basis. length row = H * W"
    and ps: "\<forall>s\<in>set ss. pose_shaped (transform s)"
    and b: "b < length ss" and p: "p < H * W"
  shows "length pool = 6"
    and "\<forall>row\<in>set pool. length row = length ss * (H * W)"
    and "column pool (b * (H * W) + p)
           = translation (transform (ss ! b))
             @ mat_vec (rotation (transform (ss ! b))) (column basis p)"
proof -
  let ?B = "length ss"
  let ?K = "H * W"
  let ?m = "transform (ss ! b)"
  from lbas obtain r0 rest where bas: "basis = r0 # rest" by (cases basis) simp_all
  have nc: "ncols basis = ?K" using rbas by (simp add: bas ncols_def)
  from sp obtain t rot d tr orig both where
    st: "stack (map transform ss) = Inr t" and
    ro: "rot_part t = Inr rot" and
    mm: "matmul rot basis = Inr d" and
    tp: "trans_part t = Inr tr" and
    ex: "expand tr ?B 3 ?K = Inr orig" and
    ct: "cat1 orig d = Inr both" and
    rs: "reshape6 (permute102 both) = Inr pool"
    by (auto simp: rays_split_def Let_def and_then_Inr)
  have t: "t = map transform ss" using st by (rule stack_Inr(1))
  have Bpos: "0 < ?B" using b by (cases ss) simp_all
  have shaped: "3 \<le> length m \<and> (\<forall>row\<in>set m. length row = 4)" if "m \<in> set t" for m
    using that ps unfolding t pose_shaped_def by auto
  have tb: "t ! b = ?m" using b by (simp add: t)
  have mb: "?m \<in> set t" using b unfolding t by simp
  have m3: "3 \<le> length ?m" and m4: "\<forall>row\<in>set ?m. length row = 4"
    using shaped [OF mb] by simp_all
  have rot: "rot = map (\<lambda>m. map (take 3) (take 3 m)) t"
    using ro by (auto simp: rot_part_def split: if_splits)
  have lt: "length t = ?B" by (simp add: t)
  have drot: "dims3 rot ?B 3 3"
    unfolding rot using lt
  proof (rule dims3_map)
    fix m assume "m \<in> set t"
    then have "3 \<le> length m" and "\<forall>row\<in>set m. length row = 4" using shaped by simp_all
    then show "length (map (take 3) (take 3 m)) = 3 \<and>
         (\<forall>r\<in>set (map (take 3) (take 3 m)). length r = 3)"
      by (rule pose_blocks(1))
  qed
  have d: "d = map (\<lambda>m. map (\<lambda>r. map (\<lambda>q. \<Sum>j\<leftarrow>[0..<length basis]. r ! j * basis ! j ! q)
                                    [0..<ncols basis]) m) rot"
    and dd0: "dims3 d ?B 3 (ncols basis)"
    using matmul_Inr [OF mm drot] by simp_all
  have dd: "dims3 d ?B 3 ?K" using dd0 nc by simp
  have tr: "tr = map (\<lambda>m. map (drop 3) (take 3 m)) t"
    using tp by (auto simp: trans_part_def split: if_splits)
  have dtr: "dims3 tr ?B 3 1"
    unfolding tr using lt
  proof (rule dims3_map)
    fix m assume "m \<in> set t"
    then have "3 \<le> length m" and "\<forall>row\<in>set m. length row = 4" using shaped by simp_all
    then show "length (map (drop 3) (take 3 m)) = 3 \<and>
         (\<forall>r\<in>set (map (drop 3) (take 3 m)). length r = 1)"
      by (rule pose_blocks(2))
  qed
  have dorig: "dims3 orig ?B 3 ?K" using ex by (rule expand_Inr)
  have orig_row: "orig ! b ! i = replicate ?K (?m ! i ! 3)" if i: "i < 3" for i
  proof -
    have "orig ! b ! i = replicate ?K (hd (tr ! b ! i))"
      using ex dtr b i by (rule expand_broadcast)
    moreover have "tr ! b ! i = drop 3 (?m ! i)"
      using b i m3 by (simp add: tr t)
    moreover have "length (?m ! i) = 4" using m4 m3 i by simp
    then have "hd (drop 3 (?m ! i)) = ?m ! i ! 3" by (simp add: hd_drop_conv_nth)
    ultimately show ?thesis by simp
  qed
  have both: "both = map2 (@) orig d" and dboth0: "dims3 both ?B (3 + 3) ?K"
    using cat1_Inr [OF ct dorig dd] by simp_all
  have dboth: "dims3 both ?B 6 ?K" using dboth0 by simp
  have lo: "length orig = ?B" and ld: "length d = ?B"
    using dorig dd by (simp_all add: dims3_def)
  have bb: "both ! b = orig ! b @ d ! b" using b lo ld by (simp add: both)
  have perm: "permute102 both = map (\<lambda>r. map (\<lambda>m. m ! r) both) [0..<6]"
    and dperm: "dims3 (permute102 both) 6 ?B ?K"
    using permute102_dims [OF dboth Bpos] by simp_all
  have pool: "pool = map concat (permute102 both)"
    using rs reshape6_rows [OF dperm] by simp
  show l6: "length pool = 6" using pool dperm by (simp add: dims3_def)
  have row_len: "length (concat m) = ?B * ?K" if "m \<in> set (permute102 both)" for m
  proof -
    have "length (concat m) = length m * ?K"
      using dperm that by (intro length_concat_uniform) (simp add: dims3_def)
    then show ?thesis using dperm that by (simp add: dims3_def)
  qed
  show "\<forall>row\<in>set pool. length row = ?B * ?K"
    unfolding pool using row_len by auto
  have lboth: "length both = ?B" using dboth by (simp add: dims3_def)
  have bbs: "both ! b \<in> set both" using b lboth by simp
  have lbb: "length (both ! b) = 6" using dboth bbs by (simp add: dims3_def)
  have entry: "pool ! r ! (b * ?K + p) = both ! b ! r ! p" if r: "r < 6" for r
  proof -
    have "pool ! r = concat (map (\<lambda>m. m ! r) both)"
      using r by (simp add: pool perm del: upt_Suc)
    moreover have "concat (map (\<lambda>m. m ! r) both) ! (b * ?K + p) = map (\<lambda>m. m ! r) both ! b ! p"
    proof (rule concat_nth_uniform)
      fix xs assume "xs \<in> set (map (\<lambda>m. m ! r) both)"
      then obtain m where m: "m \<in> set both" and xs: "xs = m ! r" by auto
      have "length m = 6" using dboth m by (simp add: dims3_def)
      then have "m ! r \<in> set m" using r by simp
      then show "length xs = ?K" using dboth m xs by (simp add: dims3_def)
    next
      show "b < length (map (\<lambda>m. m ! r) both)" using b lboth by simp
    next
      show "p < ?K" by (rule p)
    qed
    ultimately show ?thesis using b lboth by simp
  qed
  have "column pool (b * ?K + p) = map (\<lambda>r. pool ! r ! (b * ?K + p)) [0..<6]"
    using l6 by (simp add: column_nth del: upt_Suc)
  also have "\<dots> = map (\<lambda>r. both ! b ! r ! p) [0..<6]"
    using entry by (intro map_cong) simp_all
  also have "\<dots> = column (both ! b) p"
    using lbb by (simp add: column_nth del: upt_Suc)
  also have "\<dots> = column (orig ! b) p @ column (d ! b) p"
    by (simp add: bb column_append)
  finally have col: "column pool (b * ?K + p) = column (orig ! b) p @ column (d ! b) p" .
  have ob: "orig ! b \<in> set orig" using b lo by simp
  have lob: "length (orig ! b) = 3" using dorig ob by (simp add: dims3_def)
  have "column (orig ! b) p = map (\<lambda>i. orig ! b ! i ! p) [0..<3]"
    using lob by (simp add: column_nth del: upt_Suc)
  also have "\<dots> = map (\<lambda>i. ?m ! i ! 3) [0..<3]"
    using orig_row p by (intro map_cong) simp_all
  finally have first: "column (orig ! b) p = translation ?m"
    by (simp add: translation_def del: upt_Suc)
  have rb: "rot ! b = rotation ?m" using b by (simp add: rot t rotation_def)
  have lcol: "length (column basis p) = 3" using lbas by (simp add: column_def)
  have db: "d ! b = map (\<lambda>r. map (\<lambda>q. \<Sum>j\<leftarrow>[0..<3]. r ! j * basis ! j ! q) [0..<?K])
                      (rotation ?m)"
    using b drot rb by (simp add: d nc lbas dims3_def del: upt_Suc)
  have "column (d ! b) p
          = map (\<lambda>r. \<Sum>j\<leftarrow>[0..<3]. r ! j * basis ! j ! p) (rotation ?m)"
    using p by (simp add: db column_def del: upt_Suc)
  also have "\<dots> = map (\<lambda>r. \<Sum>j\<leftarrow>[0..<3]. r ! j * column basis p ! j) (rotation ?m)"
  proof (rule map_cong [OF refl])
    fix r
    show "(\<Sum>j\<leftarrow>[0..<3]. r ! j * basis ! j ! p) = (\<Sum>j\<leftarrow>[0..<3]. r ! j * column basis p ! j)"
      using lbas by (intro sum_list_upt_cong) (simp add: column_def)
  qed
  finally have second: "column (d ! b) p = mat_vec (rotation ?m) (column basis p)"
    by (simp add: mat_vec_def lcol del: upt_Suc)
  show "column pool (b * ?K + p)
           = translation ?m @ mat_vec (rotation ?m) (column basis p)"
    using col first second by simp
qed

lemma rays_loop_Inr:
  assumes "rays_loop ks samples cam basis acc = Inr rays"
  shows "(\<forall>k\<in>set ks. \<exists>ss pool. samples k = Some ss \<and> rays_split ss cam basis = Inr pool)
         \<and> dom rays = dom acc \<union> set ks"
  using assms
proof (induction ks arbitrary: acc)
  case Nil
  then show ?case by simp
next
  case (Cons k ks)
  from Cons.prems obtain ss pool where sk: "samples k = Some ss"
    and sp: "rays_split ss cam basis = Inr pool"
    and rest: "rays_loop ks samples cam basis (acc(k \<mapsto> pool)) = Inr rays"
    by (auto simp: and_then_Inr split: option.splits)
  from Cons.IH [OF rest] sk sp show ?case by auto
qed

lemma rays_loop_keeps:
  "rays_loop ks samples cam basis acc = Inr rays \<Longrightarrow> k \<notin> set ks \<Longrightarrow> rays k = acc k"
proof (induction ks arbitrary: acc)
  case Nil
  then show ?case by auto
next
  case (Cons k' ks)
  from Cons.prems(1) obtain pool where
    rest: "rays_loop ks samples cam basis (acc(k' \<mapsto> pool)) = Inr rays"
    by (auto simp: and_then_Inr split: option.splits)
  have "rays k = (acc(k' \<mapsto> pool)) k" using Cons.IH [OF rest] Cons.prems(2) by simp
  then show ?case using Cons.prems(2) by simp
qed

lemma rays_loop_value:
  assumes "rays_loop ks samples cam basis acc = Inr rays" and "distinct ks"
    and "k \<in> set ks" and "samples k = Some ss"
  shows "\<exists>pool. rays k = Some pool \<and> rays_split ss cam basis = Inr pool"
  using assms
proof (induction ks arbitrary: acc)
  case Nil
  then show ?case by simp
next
  case (Cons k' ks)
  from Cons.prems(1) obtain ss' pool where sk: "samples k' = Some ss'"
    and sp: "rays_split ss' cam basis = Inr pool"
    and rest: "rays_loop ks samples cam basis (acc(k' \<mapsto> pool)) = Inr rays"
    by (auto simp: and_then_Inr split: option.splits)
  show ?case
  proof (cases "k \<in> set ks")
    case True
    then show ?thesis using Cons.IH [OF rest] Cons.prems by simp
  next
    case False
    then have k: "k = k'" using Cons.prems(3) by simp
    have "rays k' = (acc(k' \<mapsto> pool)) k'"
      using rest False unfolding k by (rule rays_loop_keeps)
    then show ?thesis using k sk sp Cons.prems(4) by simp
  qed
qed

lemma distinct_keys: "distinct keys"
  by (simp add: keys_def)

subsection \<open>Loading\<close>

lemma read_image_Inr:
  assumes "read_image fl = Inr im"
  shows "\<exists>a. fl = Some a \<and> shape im = shape a \<and> 0 < fst (shape a) * snd (shape a)"
  using assms
  by (auto simp: read_image_def cvtColor_def div255_def and_then_Inr
           split: option.splits if_splits)

lemma load_test_sample_Inr:
  assumes "load_test_sample path i = Inr s"
  shows "\<exists>a. i < length (test_img_paths path) \<and> test_img_paths path ! i = Some a
           \<and> shape (img s) = shape a \<and> 0 < fst (shape a) * snd (shape a)"
proof -
  from assms obtain fl im where n: "nth_err (test_img_paths path) i = Inr fl"
    and r: "read_image fl = Inr im" and s: "img s = im"
    by (auto simp: load_test_sample_def and_then_Inr)
  from n have "i < length (test_img_paths path)" and "fl = test_img_paths path ! i"
    by (auto simp: nth_err_def split: if_splits)
  then show ?thesis using read_image_Inr [OF r] s by auto
qed

lemma load_data_Inr:
  assumes "load_data path = Inr (samples, cam)"
  obtains train_samples val_samples test_samples where
    "collect (load_sample (train_img_paths path) (train_transform path))
       [0..<length (train_img_paths path)] = Inr train_samples"
    and "collect (load_sample (val_img_paths path) (val_transform path))
       [0..<length (val_img_paths path)] = Inr val_samples"
    and "collect (load_test_sample path) [0..<length (test_img_paths path)] = Inr test_samples"
    and "test_samples \<noteq> []"
    and "samples = [''train'' \<mapsto> train_samples, ''test'' \<mapsto> test_samples,
                    ''val'' \<mapsto> val_samples]"
    and "cam = (fst (shape (img (last test_samples))), snd (shape (img (last test_samples))),
                real (snd (shape (img (last test_samples))))
                  / (2 * tan (camera_angle_x (train_transform path) / 2)))"
  using assms
  by (auto simp: load_data_def Let_def and_then_Inr last_img_def split: if_splits)

lemma load_data_last:
  assumes "collect (load_test_sample path) [0..<length (test_img_paths path)] = Inr test_samples"
    and "test_samples \<noteq> []"
  shows "\<exists>a. test_img_paths path \<noteq> [] \<and> last (test_img_paths path) = Some a
           \<and> shape (img (last test_samples)) = shape a \<and> 0 < fst (shape a) * snd (shape a)"
proof -
  let ?n = "length (test_img_paths path)"
  from collect_Inr [OF assms(1)] have len: "length test_samples = ?n"
    and nth: "\<forall>i<?n. load_test_sample path ([0..<?n] ! i) = Inr (test_samples ! i)"
    by simp_all
  have pos: "0 < ?n" using len assms(2) by (cases test_samples) auto
  then have ne: "test_img_paths path \<noteq> []" by auto
  have "load_test_sample path (?n - 1) = Inr (test_samples ! (?n - 1))"
    using nth pos by (metis diff_less less_numeral_extra(1) nth_upt plus_nat.add_0)
  moreover have "test_samples ! (?n - 1) = last test_samples"
    using assms(2) len by (simp add: last_conv_nth)
  moreover have "test_img_paths path ! (?n - 1) = last (test_img_paths path)"
    using ne by (simp add: last_conv_nth)
  ultimately show ?thesis using load_test_sample_Inr [of path "?n - 1" "last test_samples"] ne
    by auto
qed

lemma load_sample_short:
  assumes "length (frames tr) \<le> i"
  shows "\<exists>e. load_sample paths tr i = Inl e"
proof (cases "and_then (nth_err paths i) read_image")
  case (Inl e)
  then show ?thesis
    by (auto simp: load_sample_def and_then_def split: sum.splits)
next
  case (Inr im)
  have "nth_err (frames tr) i = Inl IndexError" using assms by (simp add: nth_err_def)
  then show ?thesis using Inr
    by (auto simp: load_sample_def and_then_def split: sum.splits)
qed

lemma load_test_sample_short:
  assumes "length (frames (test_transform path)) \<le> i"
  shows "\<exists>e. load_test_sample path i = Inl e"
proof -
  have "nth_err (frames (test_transform path)) i = Inl IndexError"
    using assms by (simp add: nth_err_def)
  then show ?thesis
    by (auto simp: load_test_sample_def and_then_def split: sum.splits)
qed

lemma load_data_short_train:
  assumes "length (frames (train_transform path)) < length (train_img_paths path)"
  shows "\<exists>e. load_data path = Inl e"
proof -
  obtain e where "load_sample (train_img_paths path) (train_transform path)
                    (length (frames (train_transform path))) = Inl e"
    using load_sample_short [of "train_transform path" "length (frames (train_transform path))"]
    by blast
  from collect_upt_Inl
         [where f = "load_sample (train_img_paths path) (train_transform path)", OF assms this]
  obtain e' where
    "collect (load_sample (train_img_paths path) (train_transform path))
       [0..<length (train_img_paths path)] = Inl e'" ..
  then show ?thesis by (simp add: load_data_def Let_def and_then_def)
qed

lemma load_data_short_val:
  assumes "length (frames (val_transform path)) < length (val_img_paths path)"
  shows "\<exists>e. load_data path = Inl e"
proof -
  obtain e where "load_sample (val_img_paths path) (val_transform path)
                    (length (frames (val_transform path))) = Inl e"
    using load_sample_short [of "val_transform path" "length (frames (val_transform path))"]
    by blast
  from collect_upt_Inl
         [where f = "load_sample (val_img_paths path) (val_transform path)", OF assms this]
  obtain e' where
    "collect (load_sample (val_img_paths path) (val_transform path))
       [0..<length (val_img_paths path)] = Inl e'" ..
  then show ?thesis by (simp add: load_data_def Let_def and_then_def split: sum.splits)
qed

lemma load_data_short_test:
  assumes "length (frames (test_transform path)) < length (test_img_paths path)"
  shows "\<exists>e. load_data path = Inl e"
proof -
  obtain e where "load_test_sample path (length (frames (test_transform path))) = Inl e"
    using load_test_sample_short [of path "length (frames (test_transform path))"] by blast
  from collect_upt_Inl [where f = "load_test_sample path", OF assms this]
  obtain e' where
    "collect (load_test_sample path) [0..<length (test_img_paths path)] = Inl e'" ..
  then show ?thesis by (simp add: load_data_def Let_def and_then_def split: sum.splits)
qed

lemma load_sample_first_frames:
  "i < n \<Longrightarrow> load_sample paths (first_frames n tr) i = load_sample paths tr i"
  by (simp add: load_sample_def first_frames_def nth_err_take)

lemma collect_load_sample_first_frames:
  "collect (load_sample paths (first_frames n tr)) [0..<n] = collect (load_sample paths tr) [0..<n]"
  by (rule collect_cong) (simp add: load_sample_first_frames)

lemma load_test_sample_drop_surplus:
  "i < length (test_img_paths path)
     \<Longrightarrow> load_test_sample (drop_surplus path) i = load_test_sample path i"
  by (simp add: load_test_sample_def drop_surplus_def first_frames_def nth_err_take)

lemma collect_load_test_sample_drop_surplus:
  "collect (load_test_sample (drop_surplus path)) [0..<length (test_img_paths path)]
     = collect (load_test_sample path) [0..<length (test_img_paths path)]"
  by (rule collect_cong) (simp add: load_test_sample_drop_surplus)

lemma load_data_drop_surplus: "load_data (drop_surplus path) = load_data path"
proof -
  have fields: "train_img_paths (drop_surplus path) = train_img_paths path"
    "val_img_paths (drop_surplus path) = val_img_paths path"
    "test_img_paths (drop_surplus path) = test_img_paths path"
    "train_transform (drop_surplus path)
       = first_frames (length (train_img_paths path)) (train_transform path)"
    "val_transform (drop_surplus path)
       = first_frames (length (val_img_paths path)) (val_transform path)"
    by (simp_all add: drop_surplus_def)
  have fov: "camera_angle_x (first_frames (length (train_img_paths path)) (train_transform path))
               = camera_angle_x (train_transform path)"
    by (simp add: first_frames_def)
  show ?thesis
    unfolding load_data_def Let_def fields fov collect_load_sample_first_frames
      collect_load_test_sample_drop_surplus ..
qed

subsection \<open>Construction and sampling\<close>

lemma RayGenerator_init_Inr:
  assumes "RayGenerator_init path on_gpu = Inr self"
  obtains samples cam rays where "load_data path = Inr (samples, cam)"
    and "rays_dataset samples cam = Inr rays"
    and "self = \<lparr>self_samples = samples, self_cam_params = cam,
          self_H = fst cam, self_W = fst (snd cam), self_f = snd (snd cam),
          self_rays_dataset = rays\<rparr>"
  using assms by (auto simp: RayGenerator_init_def and_then_Inr)

lemma init_load_data_Inl:
  "load_data path = Inl e \<Longrightarrow> RayGenerator_init path on_gpu = Inl e"
  by (simp add: RayGenerator_init_def and_then_def)

lemma init_split:
  assumes "RayGenerator_init path on_gpu = Inr self" and "mode \<in> set keys"
  shows "\<exists>ss data. self_samples self mode = Some ss \<and> self_rays_dataset self mode = Some data
           \<and> rays_split ss (self_cam_params self) (rays_single_cam (self_cam_params self))
                = Inr data
           \<and> pool_ok data"
proof -
  from assms(1) obtain samples cam rays where ld: "load_data path = Inr (samples, cam)"
    and rd: "rays_dataset samples cam = Inr rays"
    and self: "self = \<lparr>self_samples = samples, self_cam_params = cam,
          self_H = fst cam, self_W = fst (snd cam), self_f = snd (snd cam),
          self_rays_dataset = rays\<rparr>"
    by (rule RayGenerator_init_Inr)
  from ld obtain train_samples val_samples test_samples where
    ct: "collect (load_test_sample path) [0..<length (test_img_paths path)] = Inr test_samples"
    and ne: "test_samples \<noteq> []"
    and samples: "samples = [''train'' \<mapsto> train_samples, ''test'' \<mapsto> test_samples,
                    ''val'' \<mapsto> val_samples]"
    and cam: "cam = (fst (shape (img (last test_samples))), snd (shape (img (last test_samples))),
                real (snd (shape (img (last test_samples))))
                  / (2 * tan (camera_angle_x (train_transform path) / 2)))"
    by (rule load_data_Inr)
  from load_data_last [OF ct ne] have hw: "0 < fst cam * fst (snd cam)"
    using cam by auto
  obtain H W f where c3: "cam = (H, W, f)" by (cases cam) auto
  from rd have loop: "rays_loop keys samples cam (rays_single_cam cam) Map.empty = Inr rays"
    by (simp add: rays_dataset_def)
  from rays_loop_Inr [OF loop] assms(2) obtain ss where ss: "samples mode = Some ss" by blast
  from rays_loop_value [OF loop distinct_keys assms(2) ss] obtain data where
    d: "rays mode = Some data" and sp: "rays_split ss cam (rays_single_cam cam) = Inr data"
    by blast
  have nc: "ncols (rays_single_cam (H, W, f)) = H * W" by (rule ncols_rays_single_cam)
  have hw': "0 < H * W" using hw c3 by simp
  have "pool_ok data"
    using sp [unfolded c3] nc hw' by (rule rays_split_pool_ok)
  then show ?thesis using ss d sp self by simp
qed

lemma init_dom:
  assumes "RayGenerator_init path on_gpu = Inr self"
  shows "dom (self_rays_dataset self) = set keys" and "dom (self_samples self) = set keys"
proof -
  from assms obtain samples cam rays where ld: "load_data path = Inr (samples, cam)"
    and rd: "rays_dataset samples cam = Inr rays"
    and self: "self = \<lparr>self_samples = samples, self_cam_params = cam,
          self_H = fst cam, self_W = fst (snd cam), self_f = snd (snd cam),
          self_rays_dataset = rays\<rparr>"
    by (rule RayGenerator_init_Inr)
  from rd have loop: "rays_loop keys samples cam (rays_single_cam cam) Map.empty = Inr rays"
    by (simp add: rays_dataset_def)
  from rays_loop_Inr [OF loop] show "dom (self_rays_dataset self) = set keys"
    using self by simp
  from ld obtain a b c where "samples = [''train'' \<mapsto> a, ''test'' \<mapsto> b, ''val'' \<mapsto> c]"
    by (rule load_data_Inr)
  then show "dom (self_samples self) = set keys"
    using self by (auto simp: keys_def)
qed

lemma randint_ok:
  assumes "0 \<le> N" and "0 < high" and "8 * N < 2 ^ 63" and "8 * N \<le> int (memory g)"
  shows "randint 0 high N g =
           (Inr (map (\<lambda>i. raw g (consumed g + i) mod high) [0..<nat N]),
            g\<lparr>consumed := consumed g + nat N\<rparr>)"
proof -
  have range: "\<not> (N < - (2 ^ 63) \<or> 2 ^ 63 \<le> N)" using assms(1,3) by simp
  have "8 * nat N < 2 ^ 63" using assms(1,3) by (simp add: nat_less_iff)
  moreover have "8 * nat N \<le> memory g" using assms(1,4) by (simp add: nat_le_iff)
  ultimately have "fits g 0 (8 * nat N)" by (simp add: fits_def)
  then show ?thesis using range assms(1,2) by (simp add: randint_def)
qed

lemma transpose10_cols:
  assumes "data \<noteq> []"
  shows "transpose10 (map (\<lambda>r. map (\<lambda>i. r ! i) ids) data)
           = map (\<lambda>i. map (\<lambda>row. row ! i) data) ids"
proof -
  let ?cols = "map (\<lambda>r. map (\<lambda>i. r ! i) ids) data"
  from assms obtain r0 rest where d: "data = r0 # rest" by (cases data) simp_all
  have nc: "ncols ?cols = length ids"
    by (simp add: d ncols_def)
  show ?thesis
  proof (rule nth_equalityI)
    show "length (transpose10 ?cols) = length (map (\<lambda>i. map (\<lambda>row. row ! i) data) ids)"
      by (simp add: transpose10_def nc)
  next
    fix k assume "k < length (transpose10 ?cols)"
    then have k: "k < length ids" by (simp add: transpose10_def nc)
    have "transpose10 ?cols ! k = map (\<lambda>r. r ! k) ?cols"
      using k by (simp add: transpose10_def nc)
    also have "\<dots> = map (\<lambda>row. row ! (ids ! k)) data"
      using k by simp
    finally show "transpose10 ?cols ! k = map (\<lambda>i. map (\<lambda>row. row ! i) data) ids ! k"
      using k by simp
  qed
qed

lemma index_cols_ok:
  assumes "length data = 6" and "0 \<le> N" and "batch_fits g N" and "length ids = nat N"
  shows "index_cols data ids (g\<lparr>consumed := c\<rparr>) = Inr (map (\<lambda>r. map (\<lambda>i. r ! i) ids) data)"
proof -
  have a: "24 * nat N < 2 ^ 63" using assms(2,3) by (simp add: batch_fits_def) arith
  have b: "32 * nat N \<le> memory g" using assms(2,3) by (simp add: batch_fits_def) arith
  have "fits (g\<lparr>consumed := c\<rparr>) (8 * length ids) (4 * (length data * length ids))"
    using a b by (simp add: fits_def assms(1,4))
  then show ?thesis by (simp add: index_cols_def)
qed

lemma select_ok:
  assumes "self_rays_dataset self mode = Some data" and "self_samples self mode = Some ss"
    and "pool_ok data" and "0 \<le> N" and "batch_fits g N"
  shows "select self mode N g =
           (Inr (map (\<lambda>i. map (\<lambda>row. row ! i) data)
                   (map (\<lambda>i. raw g (consumed g + i) mod ncols data) [0..<nat N]),
                 map (\<lambda>i. raw g (consumed g + i) mod ncols data) [0..<nat N]),
            self, g\<lparr>consumed := consumed g + nat N\<rparr>)"
proof -
  let ?ids = "map (\<lambda>i. raw g (consumed g + i) mod ncols data) [0..<nat N]"
  from assms(3) have pos: "0 < ncols data" and ne: "data \<noteq> []" and l6: "length data = 6"
    by (auto simp: pool_ok_def)
  have a: "8 * N < 2 ^ 63" and b: "8 * N \<le> int (memory g)"
    using assms(4,5) by (simp_all add: batch_fits_def)
  have draw: "randint 0 (ncols data) N g = (Inr ?ids, g\<lparr>consumed := consumed g + nat N\<rparr>)"
    using assms(4) pos a b by (rule randint_ok)
  have idx: "index_cols data ?ids (g\<lparr>consumed := consumed g + nat N\<rparr>)
               = Inr (map (\<lambda>r. map (\<lambda>i. r ! i) ?ids) data)"
    using l6 assms(4,5) by (rule index_cols_ok) simp
  have tr: "transpose10 (map (\<lambda>r. map (\<lambda>i. r ! i) ?ids) data)
              = map (\<lambda>i. map (\<lambda>row. row ! i) data) ?ids"
    using ne by (rule transpose10_cols)
  show ?thesis
    unfolding select_def
    by (simp only: assms(1,2) draw idx tr option.case prod.case sum.case)
qed

subsection \<open>The small dataset, evaluated\<close>

lemma read_example: "read_image (Some example_image) = Inr example_rgb"
  by (simp add: read_image_def cvtColor_def div255_def and_then_def example_image_def example_rgb_def)

lemma from_numpy_poses: "from_numpy identity_pose = Inr identity_pose" "from_numpy example_pose = Inr example_pose"
  by (simp_all add: from_numpy_def identity_pose_def example_pose_def ncols_def)

lemma upt_2: "[0..<2] = [0, 1]" by (simp add: upt_rec)

lemma example_load_data: "load_data example_dataset = Inr (example_samples, (2, 2, 1))"
  by (simp add: load_data_def example_dataset_def load_sample_def load_test_sample_def
      nth_err_def read_example example_transforms_def from_numpy_poses and_then_def
      example_samples_def example_sample_def example_test_sample_def last_img_def Let_def
      example_rgb_def upt_2 tan_45)

lemma rays_single_cam_example: "rays_single_cam (2, 2, 1) = example_basis"
  by code_simp

lemma example_train_pool:
  "rays_split [example_sample identity_pose, example_sample example_pose] (2, 2, 1) example_basis = Inr train_pool"
  by code_simp

lemma example_test_pool:
  "rays_split [example_test_sample identity_pose] (2, 2, 1) example_basis = Inr test_pool"
  by code_simp

lemma example_val_pool:
  "rays_split [example_sample example_pose] (2, 2, 1) example_basis = Inr val_pool"
  by code_simp

lemma example_rays_dataset:
  "rays_dataset example_samples (2, 2, 1)
     = Inr [''train'' \<mapsto> train_pool, ''test'' \<mapsto> test_pool, ''val'' \<mapsto> val_pool]"
  by (simp add: rays_dataset_def keys_def rays_single_cam_example example_samples_def
      example_train_pool example_test_pool example_val_pool and_then_def)

lemma example_init: "RayGenerator_init example_dataset False = Inr example_engine"
  by (simp add: RayGenerator_init_def example_load_data example_rays_dataset and_then_def
      example_engine_def)

lemma surplus_load_data: "load_data surplus_dataset = Inr (surplus_samples, (2, 2, 1))"
  by (simp add: load_data_def surplus_dataset_def example_dataset_def load_sample_def
      load_test_sample_def nth_err_def read_example example_transforms_def from_numpy_poses
      and_then_def surplus_samples_def example_sample_def example_test_sample_def last_img_def
      Let_def example_rgb_def tan_45)

lemma surplus_rays_dataset:
  "rays_dataset surplus_samples (2, 2, 1)
     = Inr [''train'' \<mapsto> test_pool, ''test'' \<mapsto> test_pool, ''val'' \<mapsto> val_pool]"
proof -
  have "rays_split [example_sample identity_pose] (2, 2, 1) example_basis = Inr test_pool"
    by code_simp
  then show ?thesis
    by (simp add: rays_dataset_def keys_def rays_single_cam_example surplus_samples_def
        example_test_pool example_val_pool and_then_def)
qed

lemma surplus_init: "RayGenerator_init surplus_dataset False = Inr surplus_engine"
  by (simp add: RayGenerator_init_def surplus_load_data surplus_rays_dataset and_then_def
      surplus_engine_def)

lemma no_test_load_data: "load_data no_test_dataset = Inl UnboundLocalError"
  by (simp add: load_data_def no_test_dataset_def example_dataset_def load_sample_def
      nth_err_def read_example example_transforms_def from_numpy_poses
      and_then_def last_img_def Let_def upt_2)

lemma example_column:
  "column train_pool (1 * 2 * 2 + 2) = [5, 6, 7, 0, - 1, - 1]"
  "translation example_pose = [5, 6, 7]"
  "mat_vec (rotation example_pose) (column example_basis 2) = [0, - 1, - 1]"
  by code_simp+

section \<open>The claims\<close>

text \<open>
  Claim C1. The pool that \<^verbatim>\<open>rays_dataset\<close> builds for a split with \<open>B\<close> samples and
  camera parameters \<open>(H, W, f)\<close> has six rows of \<open>B\<cdot>H\<cdot>W\<close> entries. For every image
  index \<open>b\<close> and pixel index \<open>p\<close>, the first three entries of column \<open>b\<cdot>H\<cdot>W + p\<close> are
  the translation of the pose of image \<open>b\<close>, and the last three are the rotation of the
  pose of image \<open>b\<close> itself applied to column \<open>p\<close> of the camera-space ray basis. The
  poses of the split are transform matrices with at least three rows of four entries.
\<close>

theorem ray_pool_layout:
  assumes "rays_dataset samples (H, W, f) = Inr rays"
    and "k \<in> set keys" and "samples k = Some ss"
    and "\<forall>s\<in>set ss. pose_shaped (transform s)"
    and "b < length ss" and "p < H * W"
  shows "\<exists>pool. rays k = Some pool \<and> length pool = 6 \<and>
           (\<forall>row\<in>set pool. length row = length ss * H * W) \<and>
           take 3 (column pool (b * H * W + p)) = translation (transform (ss ! b)) \<and>
           drop 3 (column pool (b * H * W + p))
             = mat_vec (rotation (transform (ss ! b))) (column (rays_single_cam (H, W, f)) p)"
proof -
  let ?basis = "rays_single_cam (H, W, f)"
  from assms(1) have loop: "rays_loop keys samples (H, W, f) ?basis Map.empty = Inr rays"
    by (simp add: rays_dataset_def)
  from rays_loop_value [OF loop distinct_keys assms(2,3)] obtain pool where
    rk: "rays k = Some pool" and sp: "rays_split ss (H, W, f) ?basis = Inr pool" by blast
  have lb: "length ?basis = 3" by (rule length_rays_single_cam)
  have rb: "\<forall>row\<in>set ?basis. length row = H * W" by (rule rows_rays_single_cam)
  note lay = rays_split_layout [OF sp lb rb assms(4,5,6)]
  have l6: "length pool = 6" by (rule lay(1))
  have rows: "\<forall>row\<in>set pool. length row = length ss * H * W"
    using lay(2) by (simp add: mult.assoc)
  have col: "column pool (b * H * W + p)
               = translation (transform (ss ! b))
                 @ mat_vec (rotation (transform (ss ! b))) (column ?basis p)"
    using lay(3) by (simp add: mult.assoc)
  have lt: "length (translation (transform (ss ! b))) = 3" by (simp add: translation_def)
  have "take 3 (column pool (b * H * W + p)) = translation (transform (ss ! b))"
    and "drop 3 (column pool (b * H * W + p))
           = mat_vec (rotation (transform (ss ! b))) (column ?basis p)"
    using col lt by simp_all
  then show ?thesis using rk l6 rows by blast
qed

theorem ray_pool_layout_witness:
  "rays_dataset example_samples (2, 2, 1)
     = Inr [''train'' \<mapsto> train_pool, ''test'' \<mapsto> test_pool, ''val'' \<mapsto> val_pool] \<and>
   ''train'' \<in> set keys \<and>
   example_samples ''train'' = Some [example_sample identity_pose, example_sample example_pose] \<and>
   pose_shaped (transform (example_sample identity_pose)) \<and>
   pose_shaped (transform (example_sample example_pose)) \<and>
   (1::nat) < length [example_sample identity_pose, example_sample example_pose] \<and>
   (2::nat) < 2 * 2 \<and>
   (\<exists>pool. [''train'' \<mapsto> train_pool, ''test'' \<mapsto> test_pool, ''val'' \<mapsto> val_pool] ''train''
             = Some pool \<and>
           length pool = 6 \<and>
           (\<forall>row\<in>set pool.
              length row
                = length [example_sample identity_pose, example_sample example_pose] * 2 * 2) \<and>
           take 3 (column pool (1 * 2 * 2 + 2))
             = translation
                 (transform ([example_sample identity_pose, example_sample example_pose] ! 1)) \<and>
           drop 3 (column pool (1 * 2 * 2 + 2))
             = mat_vec
                 (rotation
                    (transform ([example_sample identity_pose, example_sample example_pose] ! 1)))
                 (column (rays_single_cam (2, 2, 1)) 2))"
proof -
  have k: "''train'' \<in> set keys" by (simp add: keys_def)
  have s: "example_samples ''train''
             = Some [example_sample identity_pose, example_sample example_pose]"
    by (simp add: example_samples_def)
  have ps: "\<forall>s\<in>set [example_sample identity_pose, example_sample example_pose].
              pose_shaped (transform s)"
    by (simp add: pose_shaped_def example_sample_def identity_pose_def example_pose_def)
  have b: "(1::nat) < length [example_sample identity_pose, example_sample example_pose]"
    by simp
  have p: "(2::nat) < 2 * 2" by simp
  have ps1: "pose_shaped (transform (example_sample identity_pose))"
    and ps2: "pose_shaped (transform (example_sample example_pose))"
    using ps by simp_all
  from example_rays_dataset k s ps1 ps2 b p
    ray_pool_layout [OF example_rays_dataset k s ps b p]
  show ?thesis by blast
qed

text \<open>
  Claim C2. On an engine that construction returned, for each of the splits train, test
  and val and every positive \<open>N\<close> within the limits of the process (the batch fits),
  \<^verbatim>\<open>select\<close> returns \<open>N\<close> rows and \<open>N\<close> ids; every id is below the width of the pool of
  the split; and row \<open>k\<close> of the rays has six components and is column \<open>ray_ids ! k\<close> of
  the pool, in the order of the ids.
\<close>

theorem select_returns_batch:
  assumes "RayGenerator_init path on_gpu = Inr self" and "mode \<in> set keys" and "0 < N"
    and "batch_fits g N"
  shows "\<exists>data rays ray_ids g'.
           self_rays_dataset self mode = Some data \<and>
           select self mode N g = (Inr (rays, ray_ids), self, g') \<and>
           length rays = nat N \<and> length ray_ids = nat N \<and>
           (\<forall>k<nat N. ray_ids ! k < ncols data \<and> length (rays ! k) = 6 \<and>
                       rays ! k = map (\<lambda>row. row ! (ray_ids ! k)) data)"
proof -
  from init_split [OF assms(1,2)] obtain ss data where
    ss: "self_samples self mode = Some ss" and d: "self_rays_dataset self mode = Some data"
    and ok: "pool_ok data" by blast
  let ?ids = "map (\<lambda>i. raw g (consumed g + i) mod ncols data) [0..<nat N]"
  let ?rays = "map (\<lambda>i. map (\<lambda>row. row ! i) data) ?ids"
  have N0: "0 \<le> N" using assms(3) by simp
  have sel: "select self mode N g = (Inr (?rays, ?ids), self, g\<lparr>consumed := consumed g + nat N\<rparr>)"
    using d ss ok N0 assms(4) by (rule select_ok)
  have pos: "0 < ncols data" and l6: "length data = 6" using ok by (simp_all add: pool_ok_def)
  have rows: "\<forall>k<nat N. ?ids ! k < ncols data \<and> length (?rays ! k) = 6 \<and>
                    ?rays ! k = map (\<lambda>row. row ! (?ids ! k)) data"
    using pos l6 by simp
  have len: "length ?rays = nat N" "length ?ids = nat N" by simp_all
  from d sel len rows show ?thesis by blast
qed

theorem select_returns_batch_witness:
  "RayGenerator_init example_dataset False = Inr example_engine \<and>
   ''train'' \<in> set keys \<and> (0::int) < 5 \<and> batch_fits example_state 5 \<and>
   (\<exists>data rays ray_ids g'.
      self_rays_dataset example_engine ''train'' = Some data \<and>
      select example_engine ''train'' 5 example_state
        = (Inr (rays, ray_ids), example_engine, g') \<and>
      length rays = nat 5 \<and> length ray_ids = nat 5 \<and>
      (\<forall>k<nat 5. ray_ids ! k < ncols data \<and> length (rays ! k) = 6 \<and>
                  rays ! k = map (\<lambda>row. row ! (ray_ids ! k)) data))"
proof -
  have k: "''train'' \<in> set keys" by (simp add: keys_def)
  have n: "(0::int) < 5" by simp
  have m: "batch_fits example_state 5" by (simp add: batch_fits_def example_state_def)
  from example_init k n m select_returns_batch [OF example_init k n m]
  show ?thesis by blast
qed

text \<open>
  Claim C3, as stated, asks construction to fail whenever the number of images of a split
  differs from the number of its pose entries, in either direction. The code makes no
  such comparison: each loop of \<^verbatim>\<open>load_data\<close> runs over the images and reads the pose
  entry of the same index. With one train image and two train poses construction
  succeeds, and the train pool has the width of one image.
\<close>

theorem surplus_poses_counterexample:
  "length (train_img_paths surplus_dataset) = 1 \<and>
   length (frames (train_transform surplus_dataset)) = 2 \<and>
   RayGenerator_init surplus_dataset False = Inr surplus_engine"
  using surplus_init
  by (simp add: surplus_dataset_def example_dataset_def example_transforms_def)

text \<open>
  Claim C3, amended. If a split lists fewer pose entries than it has images, \<^verbatim>\<open>load_data\<close>
  raises (the index error of the missing entry, or an earlier error), so construction
  fails before any pool is built. Pose entries beyond the number of images are never
  read: construction on a dataset is construction on the dataset with every pose list
  cut to the number of images of its split.
\<close>

theorem pose_count_mismatch:
  "(length (frames (train_transform path)) < length (train_img_paths path) \<or>
    length (frames (val_transform path)) < length (val_img_paths path) \<or>
    length (frames (test_transform path)) < length (test_img_paths path)
      \<longrightarrow> (\<exists>e. load_data path = Inl e \<and> RayGenerator_init path on_gpu = Inl e)) \<and>
   RayGenerator_init (drop_surplus path) on_gpu = RayGenerator_init path on_gpu"
proof (intro conjI impI)
  assume "length (frames (train_transform path)) < length (train_img_paths path) \<or>
    length (frames (val_transform path)) < length (val_img_paths path) \<or>
    length (frames (test_transform path)) < length (test_img_paths path)"
  then obtain e where "load_data path = Inl e"
    using load_data_short_train load_data_short_val load_data_short_test by blast
  then show "\<exists>e. load_data path = Inl e \<and> RayGenerator_init path on_gpu = Inl e"
    using init_load_data_Inl by blast
next
  show "RayGenerator_init (drop_surplus path) on_gpu = RayGenerator_init path on_gpu"
    by (simp add: RayGenerator_init_def load_data_drop_surplus)
qed

theorem pose_count_mismatch_witness:
  "length (frames (val_transform short_dataset)) < length (val_img_paths short_dataset) \<and>
   (\<exists>e. load_data short_dataset = Inl e \<and> RayGenerator_init short_dataset False = Inl e) \<and>
   RayGenerator_init (drop_surplus surplus_dataset) False = Inr surplus_engine"
proof -
  have h: "length (frames (val_transform short_dataset)) < length (val_img_paths short_dataset)"
    by (simp add: short_dataset_def example_dataset_def example_transforms_def)
  from h pose_count_mismatch [of short_dataset False]
    pose_count_mismatch [of surplus_dataset False] surplus_init
  show ?thesis by simp
qed

text \<open>
  Claim C4. On an engine that construction returned, \<^verbatim>\<open>select\<close> with a split name other
  than train, test and val raises \<^verbatim>\<open>KeyError\<close> for every \<open>N\<close>: the caller gets the error,
  and neither rays nor an empty result.
\<close>

theorem select_invalid_split:
  assumes "RayGenerator_init path on_gpu = Inr self" and "mode \<notin> set keys"
  shows "select self mode N g = (Inl KeyError, self, g)"
proof -
  have "mode \<notin> dom (self_rays_dataset self)"
    using init_dom(1) [OF assms(1)] assms(2) by simp
  then have "self_rays_dataset self mode = None" by auto
  then show ?thesis by (simp add: select_def)
qed

theorem select_invalid_split_witness:
  "RayGenerator_init example_dataset False = Inr example_engine \<and>
   ''training'' \<notin> set keys \<and>
   select example_engine ''training'' 4096 example_state
     = (Inl KeyError, example_engine, example_state)"
proof -
  have k: "''training'' \<notin> set keys" by (simp add: keys_def)
  from example_init k select_invalid_split [OF example_init k, of 4096 example_state]
  show ?thesis by blast
qed

text \<open>
  Claim C5, as stated, lets \<^verbatim>\<open>select\<close> succeed for every positive \<open>N\<close>. The code has no
  bound of its own, but the draw has: the size of \<^verbatim>\<open>torch.randint\<close> is a signed 64-bit
  integer, and the ids need eight bytes each. At \<open>N = 2\<^sup>6\<^sup>3\<close> the call raises
  \<^verbatim>\<open>TypeError\<close> and at \<open>N = 2\<^sup>6\<^sup>2\<close> it raises \<^verbatim>\<open>RuntimeError\<close>, whatever the memory of the
  process.
\<close>

theorem select_unbounded_counterexample:
  "RayGenerator_init example_dataset False = Inr example_engine \<and>
   ''train'' \<in> set keys \<and> (0::int) < 2 ^ 63 \<and> (0::int) < 2 ^ 62 \<and>
   select example_engine ''train'' (2 ^ 63) example_state
     = (Inl TypeError, example_engine, example_state) \<and>
   select example_engine ''train'' (2 ^ 62) example_state
     = (Inl RuntimeError, example_engine, example_state)"
  using example_init
  by (simp add: keys_def select_def randint_def fits_def example_engine_def
      example_samples_def)

text \<open>
  Claim C5, amended. On an engine that construction returned, for each of the three
  splits and every positive \<open>N\<close> whose batch fits the process, \<^verbatim>\<open>select\<close> succeeds and
  returns \<open>N\<close> rows and \<open>N\<close> ids below the width of the pool. No bound relative to the pool
  is enforced: the ids are drawn with replacement, so when \<open>N\<close> exceeds the width of the
  pool the batch succeeds all the same, and then holds some id twice.
\<close>

theorem select_with_replacement:
  assumes "RayGenerator_init path on_gpu = Inr self" and "mode \<in> set keys" and "0 < N"
    and "batch_fits g N"
  shows "\<exists>data rays ray_ids g'.
           self_rays_dataset self mode = Some data \<and>
           select self mode N g = (Inr (rays, ray_ids), self, g') \<and>
           length rays = nat N \<and> length ray_ids = nat N \<and>
           (\<forall>i\<in>set ray_ids. i < ncols data) \<and>
           (int (ncols data) < N \<longrightarrow> \<not> distinct ray_ids)"
proof -
  from init_split [OF assms(1,2)] obtain ss data where
    ss: "self_samples self mode = Some ss" and d: "self_rays_dataset self mode = Some data"
    and ok: "pool_ok data" by blast
  let ?ids = "map (\<lambda>i. raw g (consumed g + i) mod ncols data) [0..<nat N]"
  let ?rays = "map (\<lambda>i. map (\<lambda>row. row ! i) data) ?ids"
  have N0: "0 \<le> N" using assms(3) by simp
  have sel: "select self mode N g = (Inr (?rays, ?ids), self, g\<lparr>consumed := consumed g + nat N\<rparr>)"
    using d ss ok N0 assms(4) by (rule select_ok)
  have pos: "0 < ncols data" using ok by (simp add: pool_ok_def)
  have len: "length ?rays = nat N" "length ?ids = nat N" by simp_all
  have below: "\<forall>i\<in>set ?ids. i < ncols data" using pos by auto
  have dup: "\<not> distinct ?ids" if big: "int (ncols data) < N"
  proof
    assume dist: "distinct ?ids"
    have "set ?ids \<subseteq> {..<ncols data}" using pos by auto
    then have "card (set ?ids) \<le> card {..<ncols data}" by (intro card_mono) simp_all
    moreover have "card (set ?ids) = length ?ids" using dist by (rule distinct_card)
    ultimately have "nat N \<le> ncols data" by simp
    then show False using big by simp
  qed
  from d sel len below dup show ?thesis by blast
qed

theorem select_with_replacement_witness:
  "RayGenerator_init example_dataset False = Inr example_engine \<and>
   ''test'' \<in> set keys \<and> (0::int) < 9 \<and> batch_fits example_state 9 \<and>
   (\<exists>data rays ray_ids g'.
      self_rays_dataset example_engine ''test'' = Some data \<and>
      select example_engine ''test'' 9 example_state
        = (Inr (rays, ray_ids), example_engine, g') \<and>
      length rays = nat 9 \<and> length ray_ids = nat 9 \<and>
      (\<forall>i\<in>set ray_ids. i < ncols data) \<and>
      (int (ncols data) < 9 \<longrightarrow> \<not> distinct ray_ids))"
proof -
  have k: "''test'' \<in> set keys" by (simp add: keys_def)
  have n: "(0::int) < 9" by simp
  have m: "batch_fits example_state 9" by (simp add: batch_fits_def example_state_def)
  from example_init k n m select_with_replacement [OF example_init k n m]
  show ?thesis by blast
qed

text \<open>
  Claim C6. The camera parameters of a constructed engine are \<open>(H, W, f)\<close> with
  \<open>f = W / (2 \<cdot> tan (fov / 2))\<close>, where \<open>fov\<close> is \<^verbatim>\<open>camera_angle_x\<close> of the train transforms
  and \<open>H\<close>, \<open>W\<close> are the shape of a decoded image (the last test image). The one triple is
  stored once, and the pool of every split is built from it. Where \<open>tan (fov / 2) = 0\<close>
  the quotient has no value among the reals, so that case is left out.
\<close>

theorem shared_intrinsics:
  assumes "RayGenerator_init path on_gpu = Inr self"
    and "tan (camera_angle_x (train_transform path) / 2) \<noteq> 0"
  shows "\<exists>a. last (test_img_paths path) = Some a \<and>
           self_cam_params self
             = (fst (shape a), snd (shape a),
                real (snd (shape a)) / (2 * tan (camera_angle_x (train_transform path) / 2))) \<and>
           self_H self = fst (shape a) \<and> self_W self = snd (shape a) \<and>
           self_f self
             = real (snd (shape a)) / (2 * tan (camera_angle_x (train_transform path) / 2)) \<and>
           (\<forall>k\<in>set keys. \<exists>ss data.
              self_samples self k = Some ss \<and> self_rays_dataset self k = Some data \<and>
              rays_split ss (self_cam_params self) (rays_single_cam (self_cam_params self))
                = Inr data)"
proof -
  from assms(1) obtain samples cam rays where ld: "load_data path = Inr (samples, cam)"
    and self: "self = \<lparr>self_samples = samples, self_cam_params = cam,
          self_H = fst cam, self_W = fst (snd cam), self_f = snd (snd cam),
          self_rays_dataset = rays\<rparr>"
    by (rule RayGenerator_init_Inr)
  from ld obtain test_samples where
    ct: "collect (load_test_sample path) [0..<length (test_img_paths path)] = Inr test_samples"
    and ne: "test_samples \<noteq> []"
    and cam: "cam = (fst (shape (img (last test_samples))), snd (shape (img (last test_samples))),
                real (snd (shape (img (last test_samples))))
                  / (2 * tan (camera_angle_x (train_transform path) / 2)))"
    by (rule load_data_Inr)
  from load_data_last [OF ct ne] obtain a where a: "last (test_img_paths path) = Some a"
    and sh: "shape (img (last test_samples)) = shape a" by blast
  have splits: "\<forall>k\<in>set keys. \<exists>ss data.
              self_samples self k = Some ss \<and> self_rays_dataset self k = Some data \<and>
              rays_split ss (self_cam_params self) (rays_single_cam (self_cam_params self))
                = Inr data"
    using init_split [OF assms(1)] by blast
  have "self_cam_params self
             = (fst (shape a), snd (shape a),
                real (snd (shape a)) / (2 * tan (camera_angle_x (train_transform path) / 2)))"
    using self cam sh by simp
  moreover have "self_H self = fst (shape a)" "self_W self = snd (shape a)"
    "self_f self = real (snd (shape a)) / (2 * tan (camera_angle_x (train_transform path) / 2))"
    using self cam sh by simp_all
  ultimately show ?thesis using a splits by blast
qed

theorem shared_intrinsics_witness:
  "RayGenerator_init example_dataset False = Inr example_engine \<and>
   tan (camera_angle_x (train_transform example_dataset) / 2) \<noteq> 0 \<and>
   (\<exists>a. last (test_img_paths example_dataset) = Some a \<and>
           self_cam_params example_engine
             = (fst (shape a), snd (shape a),
                real (snd (shape a))
                  / (2 * tan (camera_angle_x (train_transform example_dataset) / 2))) \<and>
           self_H example_engine = fst (shape a) \<and> self_W example_engine = snd (shape a) \<and>
           self_f example_engine
             = real (snd (shape a))
                 / (2 * tan (camera_angle_x (train_transform example_dataset) / 2)) \<and>
           (\<forall>k\<in>set keys. \<exists>ss data.
              self_samples example_engine k = Some ss \<and>
              self_rays_dataset example_engine k = Some data \<and>
              rays_split ss (self_cam_params example_engine)
                (rays_single_cam (self_cam_params example_engine)) = Inr data))"
proof -
  have h: "tan (camera_angle_x (train_transform example_dataset) / 2) \<noteq> 0"
    by (simp add: example_dataset_def example_transforms_def tan_45)
  from example_init h shared_intrinsics [OF example_init h]
  show ?thesis by blast
qed

text \<open>
  Claim C7. A call of \<^verbatim>\<open>select\<close> leaves the engine as it was, whatever the split name and
  \<open>N\<close>, and whether it returns or raises: the samples, the camera parameters with
  \<open>H\<close>, \<open>W\<close> and \<open>f\<close>, and the ray pools of the engine after the call are those before
  it. Only the state of torch is passed on changed.
\<close>

theorem select_frame:
  "self_samples (fst (snd (select self mode N g))) = self_samples self \<and>
   self_cam_params (fst (snd (select self mode N g))) = self_cam_params self \<and>
   self_H (fst (snd (select self mode N g))) = self_H self \<and>
   self_W (fst (snd (select self mode N g))) = self_W self \<and>
   self_f (fst (snd (select self mode N g))) = self_f self \<and>
   self_rays_dataset (fst (snd (select self mode N g))) = self_rays_dataset self"
proof -
  have "fst (snd (select self mode N g)) = self"
    by (simp add: select_def split: option.splits prod.splits sum.splits)
  then show ?thesis by simp
qed

text \<open>
  Claim C8. On an engine that construction returned, for each of the three splits,
  \<^verbatim>\<open>select\<close> with \<open>N = 0\<close> raises no error and returns rays with no row and an empty
  sequence of ids; the generator is not advanced.
\<close>

theorem select_zero:
  assumes "RayGenerator_init path on_gpu = Inr self" and "mode \<in> set keys"
  shows "select self mode 0 g = (Inr ([], []), self, g)"
proof -
  from init_split [OF assms(1,2)] obtain ss data where
    ss: "self_samples self mode = Some ss" and d: "self_rays_dataset self mode = Some data"
    and ok: "pool_ok data" by blast
  have fit: "batch_fits g 0" by (simp add: batch_fits_def)
  have "select self mode 0 g = (Inr ([], []), self, g\<lparr>consumed := consumed g + nat 0\<rparr>)"
    using select_ok [OF d ss ok _ fit] by simp
  then show ?thesis by simp
qed

theorem select_zero_witness:
  "RayGenerator_init example_dataset False = Inr example_engine \<and>
   ''val'' \<in> set keys \<and>
   select example_engine ''val'' 0 example_state
     = (Inr ([], []), example_engine, example_state)"
proof -
  have k: "''val'' \<in> set keys" by (simp add: keys_def)
  from example_init k select_zero [OF example_init k, of example_state]
  show ?thesis by blast
qed

text \<open>
  Claim C9. \<^verbatim>\<open>load_data\<close> needs a test image: with no image in the test split it raises,
  since \<open>H\<close> and \<open>W\<close> are read from the variable that the test loop assigns. When it
  returns, \<open>H\<close> and \<open>W\<close> are the shape of the last image of the test split.
\<close>

theorem load_data_needs_test_image:
  "(test_img_paths path = [] \<longrightarrow> (\<exists>e. load_data path = Inl e)) \<and>
   (load_data path = Inr (samples, cam) \<longrightarrow>
      (\<exists>a. test_img_paths path \<noteq> [] \<and> last (test_img_paths path) = Some a \<and>
           fst cam = fst (shape a) \<and> fst (snd cam) = snd (shape a)))"
proof (intro conjI impI)
  assume "test_img_paths path = []"
  then show "\<exists>e. load_data path = Inl e"
    by (simp add: load_data_def Let_def and_then_def last_img_def split: sum.splits)
next
  assume "load_data path = Inr (samples, cam)"
  then obtain test_samples where
    ct: "collect (load_test_sample path) [0..<length (test_img_paths path)] = Inr test_samples"
    and ne: "test_samples \<noteq> []"
    and cam: "cam = (fst (shape (img (last test_samples))), snd (shape (img (last test_samples))),
                real (snd (shape (img (last test_samples))))
                  / (2 * tan (camera_angle_x (train_transform path) / 2)))"
    by (rule load_data_Inr)
  from load_data_last [OF ct ne] cam
  show "\<exists>a. test_img_paths path \<noteq> [] \<and> last (test_img_paths path) = Some a \<and>
           fst cam = fst (shape a) \<and> fst (snd cam) = snd (shape a)"
    by auto
qed

theorem load_data_needs_test_image_witness:
  "test_img_paths no_test_dataset = [] \<and> (\<exists>e. load_data no_test_dataset = Inl e) \<and>
   load_data example_dataset = Inr (example_samples, (2, 2, 1)) \<and>
   (\<exists>a. test_img_paths example_dataset \<noteq> [] \<and> last (test_img_paths example_dataset) = Some a \<and>
        fst (2::nat, 2::nat, 1::real) = fst (shape a) \<and> fst (snd (2::nat, 2::nat, 1::real)) = snd (shape a))"
proof -
  have h: "test_img_paths no_test_dataset = []" by (simp add: no_test_dataset_def)
  from h example_load_data load_data_needs_test_image [of no_test_dataset]
    load_data_needs_test_image [of example_dataset example_samples "(2, 2, 1)"]
  show ?thesis by blast
qed

text \<open>
  Claim C10. On an engine that construction returned, for each of the three splits and
  every negative \<open>N\<close>, \<^verbatim>\<open>select\<close> raises the error of the index draw and returns no rays:
  \<^verbatim>\<open>RuntimeError\<close> for the negative size, and \<^verbatim>\<open>TypeError\<close> when \<open>N\<close> is below the signed
  64-bit range. The engine, with its samples and pools, and the state of torch are
  unchanged.
\<close>

theorem select_negative:
  assumes "RayGenerator_init path on_gpu = Inr self" and "mode \<in> set keys" and "N < 0"
  shows "select self mode N g
           = (Inl (if N < - (2 ^ 63) then TypeError else RuntimeError), self, g)"
proof -
  from init_split [OF assms(1,2)] obtain ss data where
    ss: "self_samples self mode = Some ss" and d: "self_rays_dataset self mode = Some data"
    by blast
  show ?thesis using ss d assms(3) by (simp add: select_def randint_def)
qed

theorem select_negative_witness:
  "RayGenerator_init example_dataset False = Inr example_engine \<and>
   ''train'' \<in> set keys \<and> (- 1::int) < 0 \<and> (- (2 ^ 63) - 1::int) < 0 \<and>
   select example_engine ''train'' (- 1) example_state
     = (Inl RuntimeError, example_engine, example_state) \<and>
   select example_engine ''train'' (- (2 ^ 63) - 1) example_state
     = (Inl TypeError, example_engine, example_state)"
proof -
  have k: "''train'' \<in> set keys" by (simp add: keys_def)
  have n: "(- 1::int) < 0" by simp
  have n': "(- (2 ^ 63) - 1::int) < 0" by simp
  from example_init k n n' select_negative [OF example_init k n, of example_state]
    select_negative [OF example_init k n', of example_state]
  show ?thesis by simp
qed

end
